theory Spec2Isabelle
  imports Complex_Main
begin

section \<open>JavaScript values used by the engine\<close>

text \<open>
  A JavaScript \<open>Map\<close> iterates in insertion order, so it is an association list with the
  oldest key first. \<open>Map.set\<close> on a key that is present replaces the value where it
  stands; on a new key it appends. Numbers that are times or counts are \<open>int\<close>;
  confidences and acoustic features are \<open>real\<close>.
\<close>

type_synonym ('k, 'v) js_map = "('k \<times> 'v) list"

definition map_has :: "'k \<Rightarrow> ('k, 'v) js_map \<Rightarrow> bool" where
  "map_has k m = (map_of m k \<noteq> None)"

definition map_get :: "'k \<Rightarrow> ('k, 'v) js_map \<Rightarrow> 'v option" where
  "map_get k m = map_of m k"

definition map_delete :: "'k \<Rightarrow> ('k, 'v) js_map \<Rightarrow> ('k, 'v) js_map" where
  "map_delete k m = filter (\<lambda>e. fst e \<noteq> k) m"

fun map_set :: "'k \<Rightarrow> 'v \<Rightarrow> ('k, 'v) js_map \<Rightarrow> ('k, 'v) js_map" where
  "map_set k v [] = [(k, v)]"
| "map_set k v (e # m) = (if fst e = k then (k, v) # m else e # map_set k v m)"

definition map_values :: "('k, 'v) js_map \<Rightarrow> 'v list" where
  "map_values m = map snd m"

text \<open>
  \<open>Array.prototype.slice(start)\<close> with one argument: a negative start counts from the
  end and is clipped at 0, a non-negative one is clipped at the length. In JavaScript
  \<open>-0\<close> is not negative, so \<open>slice(-0)\<close> is \<open>slice(0)\<close>: the whole array.
\<close>

definition js_slice :: "int \<Rightarrow> 'a list \<Rightarrow> 'a list" where
  "js_slice start xs =
     (let len = int (length xs);
          k = (if start < 0 then max (len + start) 0 else min start len)
      in drop (nat k) xs)"

section \<open>The trust cache: class LRUCache\<close>

record ('k, 'v) LRUCache =
  maxSize :: int
  cache :: "('k, 'v) js_map"

definition LRUCache_new :: "int \<Rightarrow> ('k, 'v) LRUCache" where
  "LRUCache_new n = \<lparr>maxSize = n, cache = []\<rparr>"

definition LRUCache_get :: "'k \<Rightarrow> ('k, 'v) LRUCache \<Rightarrow> 'v option \<times> ('k, 'v) LRUCache" where
  "LRUCache_get key c =
     (if \<not> map_has key (cache c) then (None, c)
      else case map_get key (cache c) of
             None \<Rightarrow> (None, c)
           | Some v \<Rightarrow> (Some v, c\<lparr>cache := map_set key v (map_delete key (cache c))\<rparr>))"

definition first_key :: "('k, 'v) js_map \<Rightarrow> 'k option" where
  "first_key m = (case m of [] \<Rightarrow> None | e # _ \<Rightarrow> Some (fst e))"

definition LRUCache_set :: "'k \<Rightarrow> 'v \<Rightarrow> ('k, 'v) LRUCache \<Rightarrow> ('k, 'v) LRUCache" where
  "LRUCache_set key v c =
     (let m = (if map_has key (cache c) then map_delete key (cache c)
               else if int (length (cache c)) \<ge> maxSize c then
                 (case first_key (cache c) of
                    None \<Rightarrow> cache c
                  | Some firstKey \<Rightarrow> map_delete firstKey (cache c))
               else cache c)
      in c\<lparr>cache := map_set key v m\<rparr>)"

definition LRUCache_has :: "'k \<Rightarrow> ('k, 'v) LRUCache \<Rightarrow> bool" where
  "LRUCache_has key c = map_has key (cache c)"

definition LRUCache_size :: "('k, 'v) LRUCache \<Rightarrow> nat" where
  "LRUCache_size c = length (cache c)"

definition LRUCache_recent :: "int \<Rightarrow> ('k, 'v) LRUCache \<Rightarrow> 'v list" where
  "LRUCache_recent count c = js_slice (- count) (map_values (cache c))"


section \<open>Class labels and keyword matching\<close>

text \<open>
  Class labels and emotion identifiers are \<open>string\<close>s. \<open>toLowerCase\<close> is modelled on
  the ASCII letters (the labels of the classifiers are ASCII); every other character is
  left as it is. \<open>str_includes\<close> is the substring test of \<open>String.prototype.includes\<close>.
\<close>

definition toLowerCase_char :: "char \<Rightarrow> char" where
  "toLowerCase_char c =
     (let n = (of_char c :: nat) in if 65 \<le> n \<and> n \<le> 90 then char_of (n + 32) else c)"

definition toLowerCase :: "string \<Rightarrow> string" where
  "toLowerCase s = map toLowerCase_char s"

fun startsWith :: "string \<Rightarrow> string \<Rightarrow> bool" where
  "startsWith s [] = True"
| "startsWith [] (p # ps) = False"
| "startsWith (c # cs) (p # ps) = (c = p \<and> startsWith cs ps)"

fun str_includes :: "string \<Rightarrow> string \<Rightarrow> bool" where
  "str_includes [] sub = (sub = [])"
| "str_includes (c # cs) sub = (startsWith (c # cs) sub \<or> str_includes cs sub)"

text \<open>The decimal rendering of an integer inside a template string.\<close>

fun digits_of :: "nat \<Rightarrow> string" where
  "digits_of n =
     (if n < 10 then [char_of (48 + n)]
      else digits_of (n div 10) @ [char_of (48 + n mod 10)])"

declare digits_of.simps [simp del]

definition number_string :: "int \<Rightarrow> string" where
  "number_string i = (if i < 0 then CHR ''-'' # digits_of (nat (- i)) else digits_of (nat i))"

section \<open>The four states\<close>

datatype StateValue = idle | cat_visual | cat_audio | cat_both

definition determineState :: "bool \<Rightarrow> bool \<Rightarrow> StateValue" where
  "determineState hasVisual hasAudio =
     (if hasVisual \<and> hasAudio then cat_both
      else if hasVisual then cat_visual
      else if hasAudio then cat_audio
      else idle)"

section \<open>The context manager (class ContextManager, extended by Mewt)\<close>

record TrustEntry =
  entry_class :: string
  entry_score :: real
  entry_timestamp :: int
  isCat :: bool

record ContextManager =
  is_now_focusing_cat :: bool
  last_mewt_time :: int
  image_lru :: "(string, TrustEntry) LRUCache"
  current_image :: "(string, real) js_map"
  current_audio :: "(string, real) js_map"
  CAT_DETECTION_THRESHOLD :: real
  CAT_SOUND_THRESHOLD :: real
  LRU_TRUST_COUNT :: int

text \<open>
  The constructor fixes the capacity of the trust cache at 20; the capacity is a
  parameter here so that the properties can be stated for every capacity.
\<close>

definition ContextManager_with_capacity :: "int \<Rightarrow> ContextManager" where
  "ContextManager_with_capacity n =
     \<lparr>is_now_focusing_cat = False, last_mewt_time = 0, image_lru = LRUCache_new n,
      current_image = [], current_audio = [],
      CAT_DETECTION_THRESHOLD = 3 / 10, CAT_SOUND_THRESHOLD = 2 / 10, LRU_TRUST_COUNT = 10\<rparr>"

definition ContextManager_new :: ContextManager where
  "ContextManager_new = ContextManager_with_capacity 20"

text \<open>Deduplication per class: the highest score of the window is kept.\<close>

definition keep_max :: "string \<times> real \<Rightarrow> (string, real) js_map \<Rightarrow> (string, real) js_map" where
  "keep_max item m =
     (if \<not> map_has (fst item) m \<or> (case map_get (fst item) m of None \<Rightarrow> False | Some s \<Rightarrow> s < snd item)
      then map_set (fst item) (snd item) m else m)"

definition addImageResult :: "(string \<times> real) list \<Rightarrow> ContextManager \<Rightarrow> ContextManager" where
  "addImageResult classResults cm = cm\<lparr>current_image := fold keep_max classResults (current_image cm)\<rparr>"

fun hasCatSound_loop :: "real \<Rightarrow> (string, real) js_map \<Rightarrow> bool" where
  "hasCatSound_loop thr [] = False"
| "hasCatSound_loop thr (e # m) =
     (if (str_includes (toLowerCase (fst e)) ''cat'' \<or> str_includes (toLowerCase (fst e)) ''meow'') \<and> snd e > thr
      then True else hasCatSound_loop thr m)"

definition hasCatSound :: "ContextManager \<Rightarrow> bool" where
  "hasCatSound cm = hasCatSound_loop (CAT_SOUND_THRESHOLD cm) (current_audio cm)"

fun hasVisualCat_loop :: "real \<Rightarrow> (string, real) js_map \<Rightarrow> bool" where
  "hasVisualCat_loop thr [] = False"
| "hasVisualCat_loop thr (e # m) =
     (if str_includes (toLowerCase (fst e)) ''cat'' \<and> snd e > thr
      then True else hasVisualCat_loop thr m)"

definition hasVisualCat :: "ContextManager \<Rightarrow> bool" where
  "hasVisualCat cm = hasVisualCat_loop (CAT_DETECTION_THRESHOLD cm) (current_image cm)"

text \<open>
  \<open>addAudioResult\<close> without a sample buffer: the audio trigger (feature extraction and
  emotion classification) only runs when a buffer is passed.
\<close>

definition addAudioResult :: "(string \<times> real) list \<Rightarrow> ContextManager \<Rightarrow> ContextManager" where
  "addAudioResult classResults cm = cm\<lparr>current_audio := fold keep_max classResults (current_audio cm)\<rparr>"

definition lru_key :: "string \<Rightarrow> int \<Rightarrow> string" where
  "lru_key className now = className @ ''_'' @ number_string now"

fun updateImageLRU_loop ::
  "int \<Rightarrow> (string, real) js_map \<Rightarrow> (string, TrustEntry) LRUCache \<Rightarrow> (string, TrustEntry) LRUCache" where
  "updateImageLRU_loop now [] lru = lru"
| "updateImageLRU_loop now (e # m) lru =
     updateImageLRU_loop now m
       (LRUCache_set (lru_key (fst e) now)
          \<lparr>entry_class = fst e, entry_score = snd e, entry_timestamp = now,
           isCat = str_includes (toLowerCase (fst e)) ''cat''\<rparr> lru)"

definition updateImageLRU :: "int \<Rightarrow> ContextManager \<Rightarrow> ContextManager" where
  "updateImageLRU now cm = cm\<lparr>image_lru := updateImageLRU_loop now (current_image cm) (image_lru cm)\<rparr>"

definition calculateTrustBasedFocus :: "StateValue \<Rightarrow> ContextManager \<Rightarrow> bool" where
  "calculateTrustBasedFocus currentState cm =
     (if currentState = idle then
        length (filter isCat (LRUCache_recent (LRU_TRUST_COUNT cm) (image_lru cm))) > 0
      else True)"

definition clearCurrentWindow :: "ContextManager \<Rightarrow> ContextManager" where
  "clearCurrentWindow cm = cm\<lparr>current_image := [], current_audio := []\<rparr>"

text \<open>
  \<open>processWindow\<close>, the one-second tick: the window's image results go into the trust
  cache, the state of the window is determined, and the window is cleared. The state of
  the window is returned (the response object carries it). The clock is read at the start
  of the tick and again by \<open>updateImageLRU\<close>; the model uses one time for both.
\<close>

definition processWindow :: "int \<Rightarrow> ContextManager \<Rightarrow> StateValue \<times> ContextManager" where
  "processWindow now cm0 =
     (let cm = updateImageLRU now cm0;
          currentState = determineState (hasVisualCat cm) (hasCatSound cm);
          cm = cm\<lparr>is_now_focusing_cat := calculateTrustBasedFocus currentState cm\<rparr>;
          cm = cm\<lparr>last_mewt_time := now\<rparr>
      in (currentState, clearCurrentWindow cm))"

section \<open>The state manager and the window processor\<close>

definition catKeywords :: "string list" where
  "catKeywords = [''cat'', ''cats'', ''domestic_cat'', ''persian_cat'',
                  ''siamese_cat'', ''tabby_cat'', ''kitten'', ''feline'']"

definition isCatClass :: "string \<Rightarrow> bool" where
  "isCatClass className = list_ex (\<lambda>keyword. str_includes (toLowerCase className) keyword) catKeywords"

record WindowProcessor =
  has_stateManager :: bool
  lruCache :: "(string, TrustEntry) LRUCache option"
  currentImageMap :: "(string, real) js_map"
  currentAudioMap :: "(string, real) js_map"

fun updateLRUCache_loop ::
  "bool \<Rightarrow> int \<Rightarrow> (string, real) js_map \<Rightarrow> (string, TrustEntry) LRUCache \<Rightarrow> (string, TrustEntry) LRUCache" where
  "updateLRUCache_loop sm now [] lru = lru"
| "updateLRUCache_loop sm now (e # m) lru =
     updateLRUCache_loop sm now m
       (LRUCache_set (lru_key (fst e) now)
          \<lparr>entry_class = fst e, entry_score = snd e, entry_timestamp = now,
           isCat = (if sm then isCatClass (fst e) else False)\<rparr> lru)"

definition updateLRUCache :: "int \<Rightarrow> WindowProcessor \<Rightarrow> WindowProcessor" where
  "updateLRUCache now wp =
     (case lruCache wp of
        None \<Rightarrow> wp
      | Some lru \<Rightarrow>
          wp\<lparr>lruCache := Some (updateLRUCache_loop (has_stateManager wp) now (currentImageMap wp) lru)\<rparr>)"

definition calculateFocusState :: "StateValue \<Rightarrow> WindowProcessor \<Rightarrow> bool" where
  "calculateFocusState currentState wp =
     (if currentState \<noteq> idle then True
      else case lruCache wp of
             None \<Rightarrow> False
           | Some lru \<Rightarrow> length (filter isCat (LRUCache_recent 10 lru)) > 0)"


section \<open>The rate limiter (class RateLimiter)\<close>

text \<open>
  \<open>Date.now()\<close> is read by the methods; in the model the time read is an argument, in
  milliseconds.
\<close>

record RateLimiter =
  minIntervalMs :: int
  maxPerMinute :: nat
  lastCallTime :: int
  callsInLastMinute :: "int list"

definition RateLimiter_new :: "int \<Rightarrow> nat \<Rightarrow> RateLimiter" where
  "RateLimiter_new minInterval maxPerMin =
     \<lparr>minIntervalMs = minInterval, maxPerMinute = maxPerMin, lastCallTime = 0, callsInLastMinute = []\<rparr>"

definition canCall :: "int \<Rightarrow> RateLimiter \<Rightarrow> bool \<times> RateLimiter" where
  "canCall now rl =
     (if now - lastCallTime rl < minIntervalMs rl then (False, rl)
      else let rl' = rl\<lparr>callsInLastMinute := filter (\<lambda>t. now - t < 60000) (callsInLastMinute rl)\<rparr>
           in if length (callsInLastMinute rl') \<ge> maxPerMinute rl' then (False, rl') else (True, rl'))"

definition recordCall :: "int \<Rightarrow> RateLimiter \<Rightarrow> RateLimiter" where
  "recordCall now rl = rl\<lparr>lastCallTime := now, callsInLastMinute := callsInLastMinute rl @ [now]\<rparr>"

definition RateLimiter_reset :: "RateLimiter \<Rightarrow> RateLimiter" where
  "RateLimiter_reset rl = rl\<lparr>lastCallTime := 0, callsInLastMinute := []\<rparr>"

section \<open>The deep-analysis channel (class VLMChannel)\<close>

text \<open>
  Texts shown to the user are lists of UTF-16 code units (\<open>js_text\<close>), since they are
  not ASCII. A text that may be \<open>null\<close> or \<open>undefined\<close> is an option.
\<close>

type_synonym js_text = "nat list"

definition ascii :: "string \<Rightarrow> js_text" where
  "ascii s = map of_char s"

datatype VLMData =
    ServiceData bool real int
  | FallbackData bool real js_text
  | AudioData bool real

record VLMResult =
  result_text :: "js_text option"
  result_data :: "VLMData option"

record Lock =
  lock_text :: "js_text option"
  lock_until :: int
  lock_data :: "VLMData option"

record VLMChannel =
  channel_type :: string
  enabled :: bool
  rateLimiter :: RateLimiter
  lock :: Lock
  isProcessing :: bool
  pendingRequest :: "unit option"

text \<open>
  The constructor: \<open>config.enabled\<close> defaults to true when undefined;
  \<open>config.minInterval || 15000\<close> and \<open>config.maxPerMinute || 3\<close> replace an undefined
  or zero value by the default.
\<close>

definition VLMChannel_new :: "string \<Rightarrow> bool option \<Rightarrow> int option \<Rightarrow> nat option \<Rightarrow> VLMChannel" where
  "VLMChannel_new type cfg_enabled cfg_minInterval cfg_maxPerMinute =
     \<lparr>channel_type = type,
      enabled = (case cfg_enabled of None \<Rightarrow> True | Some b \<Rightarrow> b),
      rateLimiter = RateLimiter_new
        (case cfg_minInterval of None \<Rightarrow> 15000 | Some i \<Rightarrow> if i = 0 then 15000 else i)
        (case cfg_maxPerMinute of None \<Rightarrow> 3 | Some n \<Rightarrow> if n = 0 then 3 else n),
      lock = \<lparr>lock_text = None, lock_until = 0, lock_data = None\<rparr>,
      isProcessing = False,
      pendingRequest = None\<rparr>"

definition setLock :: "js_text option \<Rightarrow> VLMData option \<Rightarrow> int \<Rightarrow> int \<Rightarrow> VLMChannel \<Rightarrow> VLMChannel" where
  "setLock text_arg data durationMs now ch =
     ch\<lparr>lock := \<lparr>lock_text = text_arg, lock_until = now + durationMs, lock_data = data\<rparr>\<rparr>"

text \<open>A text is truthy when it is neither \<open>null\<close>/\<open>undefined\<close> nor the empty string.\<close>

definition truthy_text :: "js_text option \<Rightarrow> bool" where
  "truthy_text t = (case t of None \<Rightarrow> False | Some s \<Rightarrow> s \<noteq> [])"

definition getText :: "int \<Rightarrow> VLMChannel \<Rightarrow> js_text option" where
  "getText now ch =
     (if lock_until (lock ch) > now \<and> truthy_text (lock_text (lock ch))
      then lock_text (lock ch) else None)"

definition isLocked :: "int \<Rightarrow> VLMChannel \<Rightarrow> bool" where
  "isLocked now ch = (lock_until (lock ch) > now)"

definition getLockData :: "int \<Rightarrow> VLMChannel \<Rightarrow> VLMData option" where
  "getLockData now ch = (if isLocked now ch then lock_data (lock ch) else None)"

definition unlock :: "VLMChannel \<Rightarrow> VLMChannel" where
  "unlock ch = ch\<lparr>lock := \<lparr>lock_text = None, lock_until = 0, lock_data = None\<rparr>\<rparr>"

definition setEnabled :: "bool \<Rightarrow> VLMChannel \<Rightarrow> VLMChannel" where
  "setEnabled b ch = ch\<lparr>enabled := b\<rparr>"

subsection \<open>The external call\<close>

text \<open>
  What the request to the service can do, as \<open>callVisionAPI\<close> sees it: \<open>fetch\<close>
  rejects (a network error), the response is not ok (status and body), the body is not
  JSON, the service answers \<open>success\<close> false (with or without an error text), or it
  answers \<open>success\<close> true with a text and data.
\<close>

datatype FetchOutcome =
    FetchRejected js_text
  | HttpNotOk int js_text
  | JsonInvalid js_text
  | ServiceFailure "js_text option"
  | ServiceSuccess "js_text option" "VLMData option"

text \<open>A settled asynchronous call: it returned a value or it threw (rejected).\<close>

datatype 'a settled = Returned 'a | Thrown js_text

definition request_failed_prefix :: js_text where
  "request_failed_prefix = ascii ''API'' @ [35831, 27714, 22833, 36133] @ ascii '' (''"

definition service_failed_text :: js_text where
  "service_failed_text = ascii ''API'' @ [36820, 22238, 22833, 36133]"

definition analysing_text :: js_text where
  "analysing_text = [22270, 20687, 20998, 26512, 20013, 46, 46, 46]"

definition audio_todo_text :: js_text where
  "audio_todo_text = [38899, 39057, 20998, 26512, 21151, 33021, 24320, 21457, 20013]"

text \<open>The body of the \<open>try\<close> block of \<open>callVisionAPI\<close>: the result or the error thrown.\<close>

definition callVisionAPI_try :: "FetchOutcome \<Rightarrow> VLMResult settled" where
  "callVisionAPI_try outcome =
     (case outcome of
        FetchRejected msg \<Rightarrow> Thrown msg
      | HttpNotOk status errorText \<Rightarrow>
          Thrown (request_failed_prefix @ ascii (number_string status) @ ascii ''): '' @ errorText)
      | JsonInvalid msg \<Rightarrow> Thrown msg
      | ServiceFailure err \<Rightarrow>
          Thrown (case err of None \<Rightarrow> service_failed_text
                  | Some e \<Rightarrow> if e = [] then service_failed_text else e)
      | ServiceSuccess t d \<Rightarrow> Returned \<lparr>result_text = t, result_data = d\<rparr>)"

text \<open>\<open>callVisionAPI\<close>: the \<open>catch\<close> block turns every error into the fallback result.\<close>

definition callVisionAPI :: "FetchOutcome \<Rightarrow> VLMResult option settled" where
  "callVisionAPI outcome =
     (case callVisionAPI_try outcome of
        Returned r \<Rightarrow> Returned (Some r)
      | Thrown msg \<Rightarrow>
          Returned (Some \<lparr>result_text = Some analysing_text,
                          result_data = Some (FallbackData False 0 msg)\<rparr>))"

definition callAudioAPI :: "VLMResult option settled" where
  "callAudioAPI = Returned (Some \<lparr>result_text = Some audio_todo_text,
                                   result_data = Some (AudioData False 0)\<rparr>)"

definition callAPI :: "VLMChannel \<Rightarrow> FetchOutcome \<Rightarrow> VLMResult option settled" where
  "callAPI ch outcome = (if channel_type ch = ''vision'' then callVisionAPI outcome else callAudioAPI)"

subsection \<open>analyze\<close>

text \<open>
  \<open>analyze\<close> suspends once, at \<open>await this.callAPI(data)\<close>. \<open>analyze_enter\<close> is the
  part that runs before the suspension, at time \<open>now\<close>: the three guards, and the first
  statement of the \<open>try\<close> block. \<open>analyze_resume\<close> is the part that runs when the call
  has settled, at the later time \<open>now\<close>: the rest of the \<open>try\<close> block, the \<open>catch\<close>
  block and the \<open>finally\<close> block. Between the two, other methods of the channel can
  run. \<open>Date.now()\<close> is read twice in sequence on resumption (by \<open>recordCall\<close> and by
  \<open>setLock\<close>); the model uses one time for both.
\<close>

datatype entered = Declined | InFlight

definition analyze_enter :: "int \<Rightarrow> VLMChannel \<Rightarrow> entered \<times> VLMChannel" where
  "analyze_enter now ch =
     (if \<not> enabled ch then (Declined, ch)
      else if isProcessing ch then (Declined, ch)
      else case canCall now (rateLimiter ch) of
             (False, rl) \<Rightarrow> (Declined, ch\<lparr>rateLimiter := rl\<rparr>)
           | (True, rl) \<Rightarrow> (InFlight, ch\<lparr>rateLimiter := rl, isProcessing := True\<rparr>))"

definition analyze_resume :: "int \<Rightarrow> VLMResult option settled \<Rightarrow> VLMChannel \<Rightarrow> VLMResult option \<times> VLMChannel" where
  "analyze_resume now api ch =
     (case api of
        Returned (Some result) \<Rightarrow>
          (Some result,
           (setLock (result_text result) (result_data result) 30000 now
              (ch\<lparr>rateLimiter := recordCall now (rateLimiter ch)\<rparr>))\<lparr>isProcessing := False\<rparr>)
      | Returned None \<Rightarrow> (None, ch\<lparr>isProcessing := False\<rparr>)
      | Thrown error \<Rightarrow> (None, ch\<lparr>isProcessing := False\<rparr>))"

text \<open>
  A whole call with nothing else running on the channel in between: entered at \<open>t0\<close>,
  settled at \<open>t1\<close>. A declined call returns \<open>null\<close> at once.
\<close>

definition analyze :: "int \<Rightarrow> VLMResult option settled \<Rightarrow> int \<Rightarrow> VLMChannel \<Rightarrow> VLMResult option \<times> VLMChannel" where
  "analyze t0 api t1 ch =
     (case analyze_enter t0 ch of
        (Declined, ch') \<Rightarrow> (None, ch')
      | (InFlight, ch') \<Rightarrow> analyze_resume t1 api ch')"


section \<open>The debounced state machine (MewtEngine.updateState)\<close>

record DebounceState =
  stable :: StateValue
  pending :: StateValue
  lastStable :: StateValue
  changeTime :: int

definition DebounceState_new :: DebounceState where
  "DebounceState_new = \<lparr>stable = idle, pending = idle, lastStable = idle, changeTime = 0\<rparr>"

text \<open>
  The debounce block of \<open>updateState\<close>. The transition handed to \<open>handleStateChange\<close>
  (to \<open>_notifyStateChange\<close> in the observer version of the engine) is returned as
  \<open>Some (newState, oldState)\<close>; \<open>None\<close> when the update fires no transition.
\<close>

definition debounce ::
  "int \<Rightarrow> int \<Rightarrow> StateValue \<Rightarrow> DebounceState \<Rightarrow> (StateValue \<times> StateValue) option \<times> DebounceState" where
  "debounce debounceMs now rawState st =
     (let st1 = (if rawState \<noteq> pending st then st\<lparr>pending := rawState, changeTime := now\<rparr> else st)
      in if now - changeTime st1 \<ge> debounceMs then
           (let st2 = st1\<lparr>stable := pending st1\<rparr>
            in if stable st2 \<noteq> lastStable st2
               then (Some (stable st2, lastStable st2), st2\<lparr>lastStable := stable st2\<rparr>)
               else (None, st2))
         else (None, st1))"

text \<open>
  A run of updates: each update reads the clock and a raw state; the transitions fired
  are collected in order.
\<close>

fun updates ::
  "int \<Rightarrow> (int \<times> StateValue) list \<Rightarrow> DebounceState \<Rightarrow> (StateValue \<times> StateValue) list \<times> DebounceState" where
  "updates debounceMs [] st = ([], st)"
| "updates debounceMs (u # us) st =
     (case debounce debounceMs (fst u) (snd u) st of
        (ev, st') \<Rightarrow>
          (case updates debounceMs us st' of
             (evs, st'') \<Rightarrow> ((case ev of None \<Rightarrow> [] | Some e \<Rightarrow> [e]) @ evs, st'')))"

text \<open>
  A raw state that flaps faster than the debounce interval: at every update, the raw
  state has been the same for less than the interval. The second argument remembers the
  raw state of the previous update and the time at which it was first seen.
\<close>

fun flaps :: "int \<Rightarrow> (StateValue \<times> int) option \<Rightarrow> (int \<times> StateValue) list \<Rightarrow> bool" where
  "flaps debounceMs prev [] = True"
| "flaps debounceMs prev (u # us) =
     (let since = (case prev of
                     None \<Rightarrow> fst u
                   | Some (raw, t) \<Rightarrow> if raw = snd u then t else fst u)
      in fst u - since < debounceMs \<and> flaps debounceMs (Some (snd u, since)) us)"

subsection \<open>The engine\<close>

definition stateResponses :: "StateValue \<Rightarrow> js_text" where
  "stateResponses s =
     (case s of
        idle \<Rightarrow> [35266, 23519, 20013, 46, 46, 46]
      | cat_visual \<Rightarrow> [37027, 37324, 26377, 21482, 23567, 29483]
      | cat_audio \<Rightarrow> [35830, 65311, 25105, 22909, 20687, 21548, 21040, 23567, 29483, 21483, 20102]
      | cat_both \<Rightarrow> [21734, 65281, 26159, 20010, 23567, 29483])"

record MewtEngine =
  mewt :: ContextManager
  vlmVision :: VLMChannel
  state :: DebounceState
  STATE_DEBOUNCE_MS :: int
  lastResponse :: js_text
  has_videoElement :: bool

text \<open>
  The constructor: \<open>config.stateDebounceMs || 2000\<close> replaces an undefined or zero
  interval by 2000 ms.
\<close>

definition MewtEngine_new :: "int option \<Rightarrow> MewtEngine" where
  "MewtEngine_new cfg_stateDebounceMs =
     \<lparr>mewt = ContextManager_new,
      vlmVision = VLMChannel_new ''vision'' None None None,
      state = DebounceState_new,
      STATE_DEBOUNCE_MS = (case cfg_stateDebounceMs of None \<Rightarrow> 2000 | Some d \<Rightarrow> if d = 0 then 2000 else d),
      lastResponse = [],
      has_videoElement = False\<rparr>"

text \<open>The trust override: the first block of \<open>updateState\<close>.\<close>

definition trusted_hasVisual :: "ContextManager \<Rightarrow> bool" where
  "trusted_hasVisual context =
     (if hasVisualCat context then True
      else if length (filter isCat (LRUCache_recent 10 (image_lru context))) > 0 then True
      else False)"

text \<open>
  \<open>handleStateChange\<close> up to its suspension: on a rising or falling edge of the visual
  states, with a frame at hand, \<open>analyze\<close> is entered (\<open>getCurrentFrame\<close> gives a frame
  when the video element is set).
\<close>

definition is_visual_state :: "StateValue \<Rightarrow> bool" where
  "is_visual_state s = (s = cat_visual \<or> s = cat_both)"

definition handleStateChange :: "int \<Rightarrow> StateValue \<Rightarrow> StateValue \<Rightarrow> MewtEngine \<Rightarrow> MewtEngine" where
  "handleStateChange now newState oldState eng =
     (let hasVisual = is_visual_state newState; hadVisual = is_visual_state oldState
      in if (hasVisual \<and> \<not> hadVisual) \<or> (\<not> hasVisual \<and> hadVisual) then
           (if has_videoElement eng then eng\<lparr>vlmVision := snd (analyze_enter now (vlmVision eng))\<rparr> else eng)
         else eng)"

text \<open>
  The text of an update: the locked text of the channel first, the text of the state
  otherwise.
\<close>

definition finalText :: "int \<Rightarrow> MewtEngine \<Rightarrow> js_text" where
  "finalText now eng =
     (case getText now (vlmVision eng) of
        Some vlmText \<Rightarrow> vlmText
      | None \<Rightarrow> stateResponses (stable (state eng)))"

text \<open>
  What an update hands to \<open>onPredictionUpdate\<close>, without the two lists of latest
  predictions (the engine passes them on unchanged); \<open>vlmLocked\<close> is whether
  \<open>update_vlmText\<close> is a text.
\<close>

record UpdateData =
  update_state :: StateValue
  update_hasVisual :: bool
  update_hasAudio :: bool
  update_text :: js_text
  update_vlmText :: "js_text option"
  update_isFocusing :: bool

definition updateState ::
  "int \<Rightarrow> MewtEngine \<Rightarrow> ((StateValue \<times> StateValue) option \<times> UpdateData option) \<times> MewtEngine" where
  "updateState now eng =
     (let context = mewt eng;
          hasVisual = trusted_hasVisual context;
          hasAudio = hasCatSound context;
          rawState = determineState hasVisual hasAudio
      in case debounce (STATE_DEBOUNCE_MS eng) now rawState (state eng) of
           (transition, st) \<Rightarrow>
             (let eng1 = (case transition of
                            None \<Rightarrow> eng\<lparr>state := st\<rparr>
                          | Some (newState, oldState) \<Rightarrow>
                              handleStateChange now newState oldState (eng\<lparr>state := st\<rparr>));
                  vlmText = getText now (vlmVision eng1);
                  text_out = finalText now eng1
              in if text_out \<noteq> [] \<and> text_out \<noteq> lastResponse eng1 then
                   ((transition,
                     Some \<lparr>update_state = stable (state eng1), update_hasVisual = hasVisual,
                           update_hasAudio = hasAudio, update_text = text_out,
                           update_vlmText = vlmText,
                           update_isFocusing = is_now_focusing_cat context\<rparr>),
                    eng1\<lparr>lastResponse := text_out\<rparr>)
                 else ((transition, None), eng1)))"

section \<open>Observer dispatch (class StateChangeObserverManager)\<close>














section \<open>The emotion classifier (classifyEmotion)\<close>

text \<open>
  The features are IEEE doubles in the source and real numbers here: the model is exact
  where the source rounds.
\<close>

record FeatureVector =
  zeroCrossingRate :: real
  spectralCentroid :: real
  spectralRolloff :: real
  energy :: real
  rms :: real

record EmotionCategory =
  category_id :: string
  category_title :: string
  category_description :: string

record Emotion =
  emotion_id :: string
  icon :: js_text
  emotion_title :: string
  emotion_description :: string
  categoryId :: string

definition emotionCategories :: "EmotionCategory list" where
  "emotionCategories =
    [\<lparr>category_id = ''friendly'', category_title = ''Friendly'',
      category_description = ''Cat feels pleased, content, or friendly''\<rparr>,
     \<lparr>category_id = ''attention'', category_title = ''Attention'',
      category_description = ''Cat wants to get your attention''\<rparr>,
     \<lparr>category_id = ''warning'', category_title = ''Warning'',
      category_description = ''Cat feels anxious, angry, or wants to warn''\<rparr>]"

definition emotions :: "Emotion list" where
  "emotions =
    [
     \<lparr>emotion_id = ''call'', icon = [55357, 56890], emotion_title = ''Friendly Call'',
      emotion_description = ''Friendly calling to other cats'', categoryId = ''friendly''\<rparr>,
     \<lparr>emotion_id = ''comfortable'', icon = [55357, 56844], emotion_title = ''Comfortable'',
      emotion_description = ''Your cat feels comfortable and relaxed'', categoryId = ''friendly''\<rparr>,
     \<lparr>emotion_id = ''flighty'', icon = [55358, 56688], emotion_title = ''Affectionate'',
      emotion_description = ''Affectionately calling to other cats'', categoryId = ''friendly''\<rparr>,
     \<lparr>emotion_id = ''satisfy'', icon = [55357, 56842], emotion_title = ''Satisfied'',
      emotion_description = ''Feeling satisfied'', categoryId = ''friendly''\<rparr>,
     \<lparr>emotion_id = ''yummy'', icon = [55357, 56843], emotion_title = ''Delicious'',
      emotion_description = ''Enjoying tasty food'', categoryId = ''friendly''\<rparr>,
     \<lparr>emotion_id = ''hello'', icon = [55357, 56395], emotion_title = ''Greeting'',
      emotion_description = ''Friendly greeting and being affectionate'', categoryId = ''attention''\<rparr>,
     \<lparr>emotion_id = ''for_food'', icon = [55356, 57213, 65039], emotion_title = ''Food Request'',
      emotion_description = ''Greeting and requesting food'', categoryId = ''attention''\<rparr>,
     \<lparr>emotion_id = ''ask_for_play'', icon = [55358, 56822], emotion_title = ''Play Invitation'',
      emotion_description = ''Inviting to play'', categoryId = ''attention''\<rparr>,
     \<lparr>emotion_id = ''ask_for_hunting'', icon = [55357, 56321], emotion_title = ''Hunt Invitation'',
      emotion_description = ''Excited, wanting to hunt'', categoryId = ''attention''\<rparr>,
     \<lparr>emotion_id = ''discomfort'', icon = [55357, 56867], emotion_title = ''Distressed'',
      emotion_description = ''Feeling upset, uncomfortable, leave me alone'', categoryId = ''attention''\<rparr>,
     \<lparr>emotion_id = ''find_mom'', icon = [55357, 56328], emotion_title = ''Help/Finding Mom'',
      emotion_description = ''Seeking help or looking for mom'', categoryId = ''attention''\<rparr>,
     \<lparr>emotion_id = ''anxious'', icon = [55357, 56880], emotion_title = ''Anxious/Scared'',
      emotion_description = ''Feeling anxious or scared'', categoryId = ''attention''\<rparr>,
     \<lparr>emotion_id = ''courtship'', icon = [55357, 56469], emotion_title = ''Mating Call'',
      emotion_description = ''Looking for a mate'', categoryId = ''attention''\<rparr>,
     \<lparr>emotion_id = ''curious'', icon = [55358, 56596], emotion_title = ''Curious'',
      emotion_description = ''Being perfunctory or curious'', categoryId = ''attention''\<rparr>,
     \<lparr>emotion_id = ''goaway'', icon = [55357, 57003], emotion_title = ''Go Away!'',
      emotion_description = ''Go away!'', categoryId = ''warning''\<rparr>,
     \<lparr>emotion_id = ''goout'', icon = [55357, 56393], emotion_title = ''Get Out!'',
      emotion_description = ''Get out!'', categoryId = ''warning''\<rparr>,
     \<lparr>emotion_id = ''dieaway'', icon = [55357, 56448], emotion_title = ''Back Off!'',
      emotion_description = ''Back off immediately!'', categoryId = ''warning''\<rparr>,
     \<lparr>emotion_id = ''warning'', icon = [9888, 65039], emotion_title = ''Warning'',
      emotion_description = ''Warning and expulsion'', categoryId = ''warning''\<rparr>,
     \<lparr>emotion_id = ''unhappy'', icon = [55357, 56850], emotion_title = ''Unhappy'',
      emotion_description = ''Leave me alone, dissatisfied'', categoryId = ''warning''\<rparr>,
     \<lparr>emotion_id = ''alert'', icon = [55357, 57000], emotion_title = ''Alert'',
      emotion_description = ''Hostile and vigilant'', categoryId = ''warning''\<rparr>,
     \<lparr>emotion_id = ''for_fight'', icon = [55358, 56650], emotion_title = ''Strong Warning'',
      emotion_description = ''Strong warning, preparing to fight'', categoryId = ''warning''\<rparr>]"

definition getEmotion :: "string \<Rightarrow> Emotion option" where
  "getEmotion ident = find (\<lambda>e. emotion_id e = ident) emotions"

definition getCategory :: "string \<Rightarrow> EmotionCategory option" where
  "getCategory ident = find (\<lambda>c. category_id c = ident) emotionCategories"

record Normalized =
  normalizedZCR :: real
  normalizedCentroid :: real
  normalizedRolloff :: real
  normalizedEnergy :: real
  normalizedRMS :: real

definition normalize :: "FeatureVector \<Rightarrow> Normalized" where
  "normalize features =
     \<lparr>normalizedZCR = min (zeroCrossingRate features * 10) 1,
      normalizedCentroid = min (spectralCentroid features / 5000) 1,
      normalizedRolloff = min (spectralRolloff features * 2) 1,
      normalizedEnergy = min (energy features * 1000000) 1,
      normalizedRMS = min (rms features * 1000) 1\<rparr>"

definition rule_comfortable :: "Normalized \<Rightarrow> real" where
  "rule_comfortable n =
     (if normalizedEnergy n < 2 / 10 \<and> normalizedRMS n < 3 / 10 \<and> normalizedZCR n < 3 / 10
      then 9 / 10 - normalizedEnergy n else 0)"

definition rule_satisfy :: "Normalized \<Rightarrow> real" where
  "rule_satisfy n =
     (if normalizedEnergy n > 1 / 10 \<and> normalizedEnergy n < 4 / 10 \<and> normalizedRMS n > 2 / 10 \<and> normalizedRMS n < 5 / 10 \<and> normalizedZCR n < 4 / 10
      then 8 / 10 else 0)"

definition rule_call :: "Normalized \<Rightarrow> real" where
  "rule_call n =
     (if normalizedEnergy n > 2 / 10 \<and> normalizedEnergy n < 6 / 10 \<and> normalizedCentroid n > 3 / 10 \<and> normalizedCentroid n < 7 / 10 \<and> normalizedZCR n > 2 / 10 \<and> normalizedZCR n < 6 / 10
      then 75 / 100 else 0)"

definition rule_flighty :: "Normalized \<Rightarrow> real" where
  "rule_flighty n =
     (if normalizedEnergy n > 3 / 10 \<and> normalizedEnergy n < 6 / 10 \<and> normalizedRMS n > 3 / 10 \<and> normalizedRMS n < 6 / 10 \<and> normalizedCentroid n > 4 / 10
      then 7 / 10 else 0)"

definition rule_yummy :: "Normalized \<Rightarrow> real" where
  "rule_yummy n =
     (if normalizedEnergy n > 2 / 10 \<and> normalizedEnergy n < 5 / 10 \<and> normalizedZCR n > 3 / 10 \<and> normalizedZCR n < 6 / 10 \<and> normalizedRolloff n > 3 / 10
      then 75 / 100 else 0)"

definition rule_hello :: "Normalized \<Rightarrow> real" where
  "rule_hello n =
     (if normalizedEnergy n > 3 / 10 \<and> normalizedEnergy n < 7 / 10 \<and> normalizedCentroid n > 4 / 10 \<and> normalizedCentroid n < 8 / 10 \<and> normalizedRMS n > 3 / 10
      then 8 / 10 else 0)"

definition rule_for_food :: "Normalized \<Rightarrow> real" where
  "rule_for_food n =
     (if normalizedEnergy n > 4 / 10 \<and> normalizedEnergy n < 8 / 10 \<and> normalizedRMS n > 4 / 10 \<and> normalizedRMS n < 8 / 10 \<and> normalizedZCR n > 3 / 10 \<and> normalizedZCR n < 7 / 10
      then 85 / 100 else 0)"

definition rule_ask_for_play :: "Normalized \<Rightarrow> real" where
  "rule_ask_for_play n =
     (if normalizedEnergy n > 5 / 10 \<and> normalizedEnergy n < 8 / 10 \<and> normalizedCentroid n > 5 / 10 \<and> normalizedZCR n > 4 / 10 \<and> normalizedRMS n > 4 / 10
      then 8 / 10 else 0)"

definition rule_ask_for_hunting :: "Normalized \<Rightarrow> real" where
  "rule_ask_for_hunting n =
     (if normalizedEnergy n > 6 / 10 \<and> normalizedCentroid n > 6 / 10 \<and> normalizedZCR n > 5 / 10 \<and> normalizedRMS n > 5 / 10
      then 85 / 100 else 0)"

definition rule_curious :: "Normalized \<Rightarrow> real" where
  "rule_curious n =
     (if normalizedEnergy n > 2 / 10 \<and> normalizedEnergy n < 6 / 10 \<and> normalizedCentroid n > 3 / 10 \<and> normalizedCentroid n < 7 / 10 \<and> normalizedZCR n > 3 / 10 \<and> normalizedZCR n < 7 / 10
      then 6 / 10 else 0)"

definition rule_find_mom :: "Normalized \<Rightarrow> real" where
  "rule_find_mom n =
     (if normalizedEnergy n > 7 / 10 \<and> normalizedRMS n > 6 / 10 \<and> normalizedCentroid n > 6 / 10 \<and> normalizedZCR n > 6 / 10
      then 9 / 10 else 0)"

definition rule_anxious :: "Normalized \<Rightarrow> real" where
  "rule_anxious n =
     (if normalizedCentroid n > 7 / 10 \<and> normalizedZCR n > 6 / 10 \<and> normalizedEnergy n > 4 / 10 \<and> normalizedRolloff n > 6 / 10
      then 85 / 100 else 0)"

definition rule_discomfort :: "Normalized \<Rightarrow> real" where
  "rule_discomfort n =
     (if normalizedEnergy n > 3 / 10 \<and> normalizedEnergy n < 7 / 10 \<and> normalizedZCR n > 5 / 10 \<and> normalizedCentroid n > 5 / 10 \<and> normalizedRMS n > 3 / 10
      then 7 / 10 else 0)"

definition rule_courtship :: "Normalized \<Rightarrow> real" where
  "rule_courtship n =
     (if normalizedEnergy n > 5 / 10 \<and> normalizedCentroid n > 4 / 10 \<and> normalizedCentroid n < 8 / 10 \<and> normalizedRolloff n > 4 / 10 \<and> normalizedRMS n > 4 / 10
      then 75 / 100 else 0)"

definition rule_for_fight :: "Normalized \<Rightarrow> real" where
  "rule_for_fight n =
     (if normalizedEnergy n > 8 / 10 \<and> normalizedCentroid n > 8 / 10 \<and> normalizedZCR n > 8 / 10 \<and> normalizedRMS n > 8 / 10 \<and> normalizedRolloff n > 7 / 10
      then 95 / 100 else 0)"

definition rule_dieaway :: "Normalized \<Rightarrow> real" where
  "rule_dieaway n =
     (if normalizedEnergy n > 85 / 100 \<and> normalizedCentroid n > 7 / 10 \<and> normalizedZCR n > 7 / 10 \<and> normalizedRMS n > 7 / 10
      then 9 / 10 else 0)"

definition rule_goout :: "Normalized \<Rightarrow> real" where
  "rule_goout n =
     (if normalizedEnergy n > 75 / 100 \<and> normalizedCentroid n > 6 / 10 \<and> normalizedZCR n > 6 / 10 \<and> normalizedRMS n > 6 / 10
      then 85 / 100 else 0)"

definition rule_warning :: "Normalized \<Rightarrow> real" where
  "rule_warning n =
     (if normalizedCentroid n > 7 / 10 \<and> normalizedZCR n > 7 / 10 \<and> normalizedEnergy n > 6 / 10 \<and> normalizedRMS n > 5 / 10
      then 8 / 10 else 0)"

definition rule_alert :: "Normalized \<Rightarrow> real" where
  "rule_alert n =
     (if normalizedCentroid n > 8 / 10 \<and> normalizedZCR n > 6 / 10 \<and> normalizedEnergy n > 5 / 10 \<and> normalizedRolloff n > 7 / 10
      then 8 / 10 else 0)"

definition rule_goaway :: "Normalized \<Rightarrow> real" where
  "rule_goaway n =
     (if normalizedEnergy n > 6 / 10 \<and> normalizedCentroid n > 6 / 10 \<and> normalizedZCR n > 5 / 10 \<and> normalizedRMS n > 5 / 10
      then 75 / 100 else 0)"

definition rule_unhappy :: "Normalized \<Rightarrow> real" where
  "rule_unhappy n =
     (if normalizedEnergy n > 4 / 10 \<and> normalizedEnergy n < 8 / 10 \<and> normalizedCentroid n > 5 / 10 \<and> normalizedZCR n > 4 / 10 \<and> normalizedRMS n > 4 / 10
      then 7 / 10 else 0)"

definition rules :: "(string \<times> (Normalized \<Rightarrow> real)) list" where
  "rules =
    [
     (''comfortable'', rule_comfortable),
     (''satisfy'', rule_satisfy),
     (''call'', rule_call),
     (''flighty'', rule_flighty),
     (''yummy'', rule_yummy),
     (''hello'', rule_hello),
     (''for_food'', rule_for_food),
     (''ask_for_play'', rule_ask_for_play),
     (''ask_for_hunting'', rule_ask_for_hunting),
     (''curious'', rule_curious),
     (''find_mom'', rule_find_mom),
     (''anxious'', rule_anxious),
     (''discomfort'', rule_discomfort),
     (''courtship'', rule_courtship),
     (''for_fight'', rule_for_fight),
     (''dieaway'', rule_dieaway),
     (''goout'', rule_goout),
     (''warning'', rule_warning),
     (''alert'', rule_alert),
     (''goaway'', rule_goaway),
     (''unhappy'', rule_unhappy)]"

record BestMatch =
  match_emotionId :: string
  match_confidence :: real

fun best_match_loop ::
  "Normalized \<Rightarrow> (string \<times> (Normalized \<Rightarrow> real)) list \<Rightarrow> BestMatch option \<Rightarrow> BestMatch option" where
  "best_match_loop n [] bestMatch = bestMatch"
| "best_match_loop n (r # rs) bestMatch =
     (let confidence = snd r n
      in if confidence > 0 \<and>
            (case bestMatch of None \<Rightarrow> True | Some b \<Rightarrow> confidence > match_confidence b)
         then best_match_loop n rs (Some \<lparr>match_emotionId = fst r, match_confidence = confidence\<rparr>)
         else best_match_loop n rs bestMatch)"

record EmotionResult =
  emotionId :: string
  emotion :: Emotion
  confidence :: real
  category :: EmotionCategory

definition classifyEmotion :: "FeatureVector \<Rightarrow> EmotionResult option" where
  "classifyEmotion features =
     (case best_match_loop (normalize features) rules None of
        None \<Rightarrow> None
      | Some bestMatch \<Rightarrow>
          if match_confidence bestMatch > 5 / 10 then
            (case getEmotion (match_emotionId bestMatch) of
               None \<Rightarrow> None
             | Some em \<Rightarrow>
                 (case getCategory (categoryId em) of
                    None \<Rightarrow> None
                  | Some cat \<Rightarrow>
                      Some \<lparr>emotionId = match_emotionId bestMatch, emotion = em,
                            confidence = match_confidence bestMatch, category = cat\<rparr>))
          else None)"

section \<open>Runs used to state the properties\<close>

text \<open>
  A run of windows of the context manager: in each window the detections of the window
  arrive, then the tick at the given time processes it.
\<close>

fun run_windows :: "(int \<times> (string \<times> real) list) list \<Rightarrow> ContextManager \<Rightarrow> ContextManager" where
  "run_windows [] cm = cm"
| "run_windows (w # ws) cm = run_windows ws (snd (processWindow (fst w) (addImageResult (snd w) cm)))"

text \<open>Entries set one after the other.\<close>

definition LRUCache_set_all :: "('k \<times> 'v) list \<Rightarrow> ('k, 'v) LRUCache \<Rightarrow> ('k, 'v) LRUCache" where
  "LRUCache_set_all kvs c = fold (\<lambda>e. LRUCache_set (fst e) (snd e)) kvs c"

text \<open>What \<open>set\<close> leaves of the map before it appends the new entry.\<close>

definition evicted :: "'k \<Rightarrow> ('k, 'v) LRUCache \<Rightarrow> ('k, 'v) js_map" where
  "evicted key c =
     (if map_has key (cache c) then map_delete key (cache c)
      else if int (length (cache c)) \<ge> maxSize c then
        (case cache c of [] \<Rightarrow> [] | e # m \<Rightarrow> map_delete (fst e) (cache c))
      else cache c)"

text \<open>The outcomes of the request that are failures: everything but a successful answer.\<close>

definition request_failed :: "FetchOutcome \<Rightarrow> bool" where
  "request_failed outcome = (case outcome of ServiceSuccess t d \<Rightarrow> False | _ \<Rightarrow> True)"

text \<open>
  No call is recorded between two states of the rate limiter: the time of the last call
  is the same, and the list of calls has no new entry (\<open>canCall\<close> may have dropped
  entries older than a minute at the time \<open>now\<close>).
\<close>

definition no_call_recorded :: "int \<Rightarrow> RateLimiter \<Rightarrow> RateLimiter \<Rightarrow> bool" where
  "no_call_recorded now rl rl' =
     (lastCallTime rl' = lastCallTime rl \<and>
      (callsInLastMinute rl' = callsInLastMinute rl \<or>
       callsInLastMinute rl' = filter (\<lambda>t. now - t < 60000) (callsInLastMinute rl)))"







text \<open>
  The classifier as the specification words it: \<open>highest\<close> is the highest confidence
  any rule of the table gives (0 for an empty table); the rule chosen is the first of the
  table that gives it; the result is null when the highest confidence is at most 0.5.
\<close>

definition highest :: "Normalized \<Rightarrow> (string \<times> (Normalized \<Rightarrow> real)) list \<Rightarrow> real" where
  "highest n rs = fold (\<lambda>r m. max (snd r n) m) rs 0"

definition classify_by_rule_table :: "FeatureVector \<Rightarrow> EmotionResult option" where
  "classify_by_rule_table features =
     (let n = normalize features; best = highest n rules
      in if best \<le> 5 / 10 then None
         else case find (\<lambda>r. snd r n = best) rules of
                None \<Rightarrow> None
              | Some r \<Rightarrow>
                  (case getEmotion (fst r) of
                     None \<Rightarrow> None
                   | Some em \<Rightarrow>
                       (case getCategory (categoryId em) of
                          None \<Rightarrow> None
                        | Some cat \<Rightarrow>
                            Some \<lparr>emotionId = fst r, emotion = em, confidence = best, category = cat\<rparr>)))"

text \<open>
  A run of the rate limiter: calls of \<open>canCall\<close> and \<open>recordCall\<close>, each with the time it
  reads from the clock. \<open>limiter_run\<close> gives the answers of the \<open>canCall\<close>s in order and
  the state at the end; \<open>recorded\<close> is the history of the recorded times.
\<close>

datatype limiter_call = CanCall int | RecordCall int

fun call_time :: "limiter_call \<Rightarrow> int" where
  "call_time (CanCall t) = t"
| "call_time (RecordCall t) = t"

fun limiter_run :: "limiter_call list \<Rightarrow> RateLimiter \<Rightarrow> bool list \<times> RateLimiter" where
  "limiter_run [] rl = ([], rl)"
| "limiter_run (CanCall t # cs) rl =
     (case limiter_run cs (snd (canCall t rl)) of (answers, rl') \<Rightarrow> (fst (canCall t rl) # answers, rl'))"
| "limiter_run (RecordCall t # cs) rl = limiter_run cs (recordCall t rl)"

fun recorded :: "limiter_call list \<Rightarrow> int list" where
  "recorded [] = []"
| "recorded (CanCall t # cs) = recorded cs"
| "recorded (RecordCall t # cs) = t # recorded cs"

text \<open>
  The calls of a caller that records only permitted calls, as \<open>analyze\<close> does: every
  \<open>recordCall\<close> comes right after a \<open>canCall\<close> that answered true. The first argument
  says whether the call before was such a \<open>canCall\<close>.
\<close>

fun permitted_only :: "bool \<Rightarrow> limiter_call list \<Rightarrow> RateLimiter \<Rightarrow> bool" where
  "permitted_only ok [] rl = True"
| "permitted_only ok (CanCall t # cs) rl = permitted_only (fst (canCall t rl)) cs (snd (canCall t rl))"
| "permitted_only ok (RecordCall t # cs) rl = (ok \<and> permitted_only False cs (recordCall t rl))"

text \<open>
  The invariants of a run. \<open>tracks\<close>: up to the time \<open>lo\<close> of the last call, the state
  holds the time of the last recorded call, and its list agrees with the history on
  every trailing minute that ends at \<open>lo\<close> or later. \<open>kept\<close>: the history of a caller
  that records only permitted calls is spaced by the minimum interval and has at most
  \<open>maxPerMinute\<close> calls in every trailing minute; when the call before was a \<open>canCall\<close>
  that answered true, the next record is within both limits.
\<close>

definition tracks :: "int \<Rightarrow> int list \<Rightarrow> RateLimiter \<Rightarrow> bool" where
  "tracks lo hist rl =
     ((\<forall>t\<in>set hist. t \<le> lo) \<and>
      lastCallTime rl = (if hist = [] then 0 else last hist) \<and>
      (\<forall>now. lo \<le> now \<longrightarrow>
         filter (\<lambda>t. now - t < 60000) (callsInLastMinute rl) = filter (\<lambda>t. now - t < 60000) hist))"

definition kept :: "int \<Rightarrow> bool \<Rightarrow> int list \<Rightarrow> RateLimiter \<Rightarrow> bool" where
  "kept lo ok hist rl =
     (sorted hist \<and>
      sorted_wrt (\<lambda>x y. minIntervalMs rl \<le> y - x) hist \<and>
      (\<forall>T. length (filter (\<lambda>t. t \<le> T \<and> T - t < 60000) hist) \<le> maxPerMinute rl) \<and>
      (ok \<longrightarrow> minIntervalMs rl \<le> lo - lastCallTime rl \<and>
              length (filter (\<lambda>t. lo - t < 60000) hist) < maxPerMinute rl))"

section \<open>Properties of the trust cache\<close>

lemma map_has_iff: "map_has k m = (k \<in> fst ` set m)"
  by (simp add: map_has_def map_of_eq_None_iff)

lemma map_set_fresh: "\<not> map_has k m \<Longrightarrow> map_set k v m = m @ [(k, v)]"
  by (induction m) (auto simp: map_has_iff)

lemma map_has_delete: "map_has k' (map_delete k m) = (k' \<noteq> k \<and> map_has k' m)"
  by (auto simp: map_has_iff map_delete_def)

lemma length_map_delete: "length (map_delete k m) \<le> length m"
  by (simp add: map_delete_def)

lemma length_map_delete_has:
  assumes "map_has k m"
  shows "length (map_delete k m) < length m"
proof -
  from assms obtain e where e: "e \<in> set m" "fst e = k"
    by (auto simp: map_has_iff)
  have "length (filter (\<lambda>x. fst x \<noteq> k) m) < length m"
    by (rule length_filter_less[OF e(1)]) (simp add: e(2))
  then show ?thesis by (simp add: map_delete_def)
qed

lemma map_delete_first:
  assumes "distinct (map fst (e # m))"
  shows "map_delete (fst e) (e # m) = m"
proof -
  from assms have "fst e \<notin> fst ` set m" by simp
  then have "\<forall>x\<in>set m. fst x \<noteq> fst e" by (metis imageI)
  then have "filter (\<lambda>x. fst x \<noteq> fst e) m = m" by (simp add: filter_id_conv)
  then show ?thesis by (simp add: map_delete_def)
qed

lemma distinct_map_delete: "distinct (map fst m) \<Longrightarrow> distinct (map fst (map_delete k m))"
  by (simp add: map_delete_def distinct_map_filter)

lemma LRUCache_set_cache:
  "cache (LRUCache_set key v c) = evicted key c @ [(key, v)] \<and> maxSize (LRUCache_set key v c) = maxSize c"
  by (auto simp: LRUCache_set_def evicted_def Let_def first_key_def map_set_fresh map_has_delete
      split: list.splits)

lemma LRUCache_set_size:
  assumes "1 \<le> maxSize c" "int (length (cache c)) \<le> maxSize c"
  shows "int (length (cache (LRUCache_set key v c))) \<le> maxSize c"
proof -
  have "int (length (evicted key c)) < maxSize c"
  proof (cases "map_has key (cache c)")
    case True
    then show ?thesis using assms length_map_delete_has[OF True] by (simp add: evicted_def)
  next
    case False
    show ?thesis
    proof (cases "int (length (cache c)) \<ge> maxSize c")
      case full: True
      then obtain e m where em: "cache c = e # m" using assms by (cases "cache c") auto
      have "map_has (fst e) (cache c)" by (simp add: em map_has_iff)
      from length_map_delete_has[OF this] show ?thesis
        using False full assms by (simp add: evicted_def em)
    next
      case notfull: False
      then show ?thesis using False by (simp add: evicted_def)
    qed
  qed
  then show ?thesis by (simp add: LRUCache_set_cache)
qed

lemma evicted_distinct:
  assumes "distinct (map fst (cache c))"
  shows "distinct (map fst (evicted key c))"
  using assms by (auto simp: evicted_def distinct_map_delete split: list.splits)

lemma evicted_not_has: "\<not> map_has key (evicted key c)"
  by (auto simp: evicted_def map_has_delete split: list.splits)

lemma LRUCache_set_distinct:
  assumes "distinct (map fst (cache c))"
  shows "distinct (map fst (cache (LRUCache_set key v c)))"
  using evicted_distinct[OF assms, of key] evicted_not_has[of key c]
  by (simp add: LRUCache_set_cache map_has_iff)

lemma set_all_within_capacity:
  "distinct (map fst (cache c @ kvs)) \<Longrightarrow> int (length (cache c @ kvs)) \<le> maxSize c \<Longrightarrow>
   cache (LRUCache_set_all kvs c) = cache c @ kvs \<and> maxSize (LRUCache_set_all kvs c) = maxSize c"
proof (induction kvs arbitrary: c)
  case Nil
  then show ?case by (simp add: LRUCache_set_all_def)
next
  case (Cons e kvs)
  have nh: "\<not> map_has (fst e) (cache c)" using Cons.prems(1) by (auto simp: map_has_iff)
  have nf: "\<not> int (length (cache c)) \<ge> maxSize c" using Cons.prems(2) by simp
  have c1: "cache (LRUCache_set (fst e) (snd e) c) = cache c @ [e]"
    and m1: "maxSize (LRUCache_set (fst e) (snd e) c) = maxSize c"
    using nh nf by (simp_all add: LRUCache_set_cache evicted_def)
  have "cache (LRUCache_set_all kvs (LRUCache_set (fst e) (snd e) c)) = cache (LRUCache_set (fst e) (snd e) c) @ kvs
     \<and> maxSize (LRUCache_set_all kvs (LRUCache_set (fst e) (snd e) c)) = maxSize (LRUCache_set (fst e) (snd e) c)"
    by (rule Cons.IH) (use Cons.prems c1 m1 in auto)
  then show ?case by (simp add: LRUCache_set_all_def c1 m1)
qed

lemma set_overflow_evicts_oldest:
  assumes "distinct (map fst (kvs @ [e]))" "int (length kvs) = N" "1 \<le> N"
  shows "cache (LRUCache_set_all (kvs @ [e]) (LRUCache_new N)) = tl kvs @ [e]"
proof -
  let ?c = "LRUCache_set_all kvs (LRUCache_new N)"
  have full: "cache ?c = kvs \<and> maxSize ?c = N"
    using set_all_within_capacity[of "LRUCache_new N" kvs] assms by (simp add: LRUCache_new_def)
  obtain x xs where kv: "kvs = x # xs" using assms(2,3) by (cases kvs) auto
  have nh: "\<not> map_has (fst e) kvs" using assms(1) by (auto simp: map_has_iff)
  have "distinct (map fst (x # xs))" using assms(1) kv by simp
  then have "map_delete (fst x) (x # xs) = xs" by (rule map_delete_first)
  then have "evicted (fst e) ?c = xs"
    using full nh assms(2) kv by (simp add: evicted_def)
  then have "cache (LRUCache_set (fst e) (snd e) ?c) = xs @ [e]"
    by (simp add: LRUCache_set_cache)
  then show ?thesis by (simp add: LRUCache_set_all_def kv)
qed

lemma recent_positive:
  assumes "1 \<le> k" "k \<le> int (LRUCache_size c)"
  shows "LRUCache_recent k c = drop (LRUCache_size c - nat k) (map_values (cache c))"
    and "int (length (LRUCache_recent k c)) = k"
  using assms by (auto simp: LRUCache_recent_def js_slice_def LRUCache_size_def map_values_def Let_def max_def nat_diff_distrib')

lemma get_promotes:
  assumes "distinct (map fst (cache c))" "map_of (cache c) key = Some v"
  shows "LRUCache_get key c = (Some v, c\<lparr>cache := map_delete key (cache c) @ [(key, v)]\<rparr>)"
  using assms by (simp add: LRUCache_get_def map_get_def map_set_fresh map_has_delete)
     (simp add: map_has_def)


text \<open>
  For a capacity of at least one and a count of at least one the cache is an LRU cache:
  the size stays within the capacity, one entry more than the capacity evicts the oldest
  entry and no other, and \<open>recent k\<close> is the last \<open>k\<close> values, oldest first.
\<close>

lemma lru_for_positive_capacity_and_count:
  "(1 \<le> maxSize c \<and> int (length (cache c)) \<le> maxSize c
      \<longrightarrow> int (LRUCache_size (LRUCache_set key v c)) \<le> maxSize c)
   \<and> (distinct (map fst (kvs @ [e])) \<and> int (length kvs) = N \<and> 1 \<le> N
      \<longrightarrow> cache (LRUCache_set_all (kvs @ [e]) (LRUCache_new N)) = tl kvs @ [e])
   \<and> (1 \<le> k \<and> k \<le> int (LRUCache_size c)
      \<longrightarrow> LRUCache_recent k c = drop (LRUCache_size c - nat k) (map_values (cache c))
          \<and> int (length (LRUCache_recent k c)) = k)"
proof -
  have a: "1 \<le> maxSize c \<and> int (length (cache c)) \<le> maxSize c
      \<longrightarrow> int (LRUCache_size (LRUCache_set key v c)) \<le> maxSize c"
    using LRUCache_set_size[of c key v] by (simp add: LRUCache_size_def)
  have b: "distinct (map fst (kvs @ [e])) \<and> int (length kvs) = N \<and> 1 \<le> N
      \<longrightarrow> cache (LRUCache_set_all (kvs @ [e]) (LRUCache_new N)) = tl kvs @ [e]"
    using set_overflow_evicts_oldest[of kvs e N] by blast
  have c: "1 \<le> k \<and> k \<le> int (LRUCache_size c)
      \<longrightarrow> LRUCache_recent k c = drop (LRUCache_size c - nat k) (map_values (cache c))
          \<and> int (length (LRUCache_recent k c)) = k"
    using recent_positive[of k c] by blast
  from a b c show ?thesis by blast
qed

text \<open>
  Claim C4. A trust cache of capacity N evicts exactly the least recently used entry when
  one entry more than N is set, so its size never exceeds N, and \<open>recent k\<close> returns
  exactly the k most recent values. The code does not do this at the count 0:
  \<open>recent(0)\<close> is \<open>values.slice(-0)\<close>, which is \<open>values.slice(0)\<close>, and returns
  every value of the cache instead of none. At the capacity 0 the size test
  \<open>size >= maxSize\<close> finds no first key to delete and the entry is stored, so the
  size is 1.
\<close>

theorem recent_zero_returns_every_value:
  "LRUCache_recent 0 (LRUCache_set_all [(''a'', 1 :: nat), (''b'', 2)] (LRUCache_new 20)) = [1, 2]
   \<and> LRUCache_size (LRUCache_set ''a'' (1 :: nat) (LRUCache_new 0)) = 1"
  by (simp add: LRUCache_recent_def LRUCache_set_all_def LRUCache_set_def LRUCache_new_def
      LRUCache_size_def js_slice_def map_values_def map_has_def first_key_def)

section \<open>The trust override\<close>

lemma processWindow_empty:
  "current_image cm = [] \<Longrightarrow>
   image_lru (snd (processWindow t cm)) = image_lru cm \<and>
   current_image (snd (processWindow t cm)) = []"
  by (simp add: processWindow_def updateImageLRU_def clearCurrentWindow_def Let_def)

lemma addImageResult_nil: "addImageResult [] cm = cm"
  by (simp add: addImageResult_def)

lemma run_empty_windows:
  "current_image cm = [] \<Longrightarrow>
   image_lru (run_windows (map (\<lambda>t. (t, [])) ts) cm) = image_lru cm \<and>
   current_image (run_windows (map (\<lambda>t. (t, [])) ts) cm) = []"
proof (induction ts arbitrary: cm)
  case Nil
  then show ?case by simp
next
  case (Cons t ts)
  have "current_image (snd (processWindow t cm)) = []"
    using Cons.prems processWindow_empty by blast
  from Cons.IH[OF this] show ?case
    using Cons.prems processWindow_empty[of cm t] by (simp add: addImageResult_nil)
qed

lemma first_window:
  "cache (image_lru (snd (processWindow t1 (addImageResult [(''cat'', 9 / 10)] (ContextManager_with_capacity N))))) =
     [(lru_key ''cat'' t1, \<lparr>entry_class = ''cat'', entry_score = 9 / 10, entry_timestamp = t1, isCat = True\<rparr>)]
   \<and> current_image (snd (processWindow t1 (addImageResult [(''cat'', 9 / 10)] (ContextManager_with_capacity N)))) = []"
  apply (simp add: processWindow_def updateImageLRU_def clearCurrentWindow_def Let_def addImageResult_def
      ContextManager_with_capacity_def keep_max_def map_has_def LRUCache_set_def LRUCache_new_def first_key_def)
  apply code_simp
  done

lemma cat_then_empty_windows:
  fixes N t1 ts
  defines "cm \<equiv> run_windows ((t1, [(''cat'', 9 / 10)]) # map (\<lambda>t. (t, [])) ts) (ContextManager_with_capacity N)"
  shows "\<not> hasVisualCat cm \<and> trusted_hasVisual cm"
proof -
  let ?cm1 = "snd (processWindow t1 (addImageResult [(''cat'', 9 / 10)] (ContextManager_with_capacity N)))"
  have cm: "cm = run_windows (map (\<lambda>t. (t, [])) ts) ?cm1"
    by (simp add: cm_def)
  have e: "current_image ?cm1 = []" using first_window[of t1 N] by simp
  have lru: "image_lru cm = image_lru ?cm1" and cur: "current_image cm = []"
    using run_empty_windows[OF e, of ts] by (simp_all add: cm)
  have "LRUCache_recent 10 (image_lru cm) =
      [\<lparr>entry_class = ''cat'', entry_score = 9 / 10, entry_timestamp = t1, isCat = True\<rparr>]"
    using first_window[of t1 N]
    by (simp add: lru LRUCache_recent_def js_slice_def map_values_def)
  moreover have "\<not> hasVisualCat cm" by (simp add: hasVisualCat_def cur)
  ultimately show ?thesis by (simp add: trusted_hasVisual_def)
qed

text \<open>
  Claim C3. When the current window holds no visual target detection above the
  threshold and one of the ten most recent entries of the trust cache is flagged as the
  target class, the window counts as visually positive: \<open>updateState\<close> sets hasVisual,
  and \<open>calculateFocusState\<close> reports focus. hasVisual is false only when none of the ten
  is flagged. After one window with (cat, 0.9), any number of empty windows (nine in
  particular) leave hasVisual true through the override alone, for every capacity of at
  least ten; a later window with ten other labels pushes the entry out of the ten most
  recent, and hasVisual is false.
\<close>

theorem trust_override:
  "(\<not> hasVisualCat cm \<and> (\<exists>e\<in>set (LRUCache_recent 10 (image_lru cm)). isCat e)
      \<longrightarrow> trusted_hasVisual cm)
   \<and> (\<not> trusted_hasVisual cm \<longrightarrow> (\<forall>e\<in>set (LRUCache_recent 10 (image_lru cm)). \<not> isCat e))
   \<and> (lruCache wp = Some lru \<and> (\<exists>e\<in>set (LRUCache_recent 10 lru). isCat e)
      \<longrightarrow> calculateFocusState currentState wp)
   \<and> (10 \<le> N \<longrightarrow>
        \<not> hasVisualCat (run_windows ((t1, [(''cat'', 9 / 10)]) # map (\<lambda>t. (t, [])) ts)
                          (ContextManager_with_capacity N))
        \<and> trusted_hasVisual (run_windows ((t1, [(''cat'', 9 / 10)]) # map (\<lambda>t. (t, [])) ts)
                          (ContextManager_with_capacity N)))
   \<and> \<not> trusted_hasVisual
        (run_windows
           [(1000, [(''cat'', 9 / 10)]),
            (2000, [(''dog'', 9 / 10), (''bird'', 8 / 10), (''car'', 7 / 10), (''tree'', 6 / 10),
                    (''sofa'', 5 / 10), (''lamp'', 4 / 10), (''cup'', 3 / 10), (''book'', 2 / 10),
                    (''door'', 1 / 10), (''wall'', 1 / 10)])]
           (ContextManager_with_capacity 20))"
proof -
  have a: "\<not> hasVisualCat cm \<and> (\<exists>e\<in>set (LRUCache_recent 10 (image_lru cm)). isCat e)
      \<longrightarrow> trusted_hasVisual cm"
    by (auto simp: trusted_hasVisual_def filter_empty_conv)
  have b: "\<not> trusted_hasVisual cm \<longrightarrow> (\<forall>e\<in>set (LRUCache_recent 10 (image_lru cm)). \<not> isCat e)"
    by (auto simp: trusted_hasVisual_def filter_empty_conv split: if_splits)
  have c: "lruCache wp = Some lru \<and> (\<exists>e\<in>set (LRUCache_recent 10 lru). isCat e)
      \<longrightarrow> calculateFocusState currentState wp"
    by (auto simp: calculateFocusState_def filter_empty_conv)
  have d: "\<not> hasVisualCat (run_windows ((t1, [(''cat'', 9 / 10)]) # map (\<lambda>t. (t, [])) ts)
                          (ContextManager_with_capacity N))
        \<and> trusted_hasVisual (run_windows ((t1, [(''cat'', 9 / 10)]) # map (\<lambda>t. (t, [])) ts)
                          (ContextManager_with_capacity N))"
    by (rule cat_then_empty_windows)
  have e: "\<not> trusted_hasVisual
        (run_windows
           [(1000, [(''cat'', 9 / 10)]),
            (2000, [(''dog'', 9 / 10), (''bird'', 8 / 10), (''car'', 7 / 10), (''tree'', 6 / 10),
                    (''sofa'', 5 / 10), (''lamp'', 4 / 10), (''cup'', 3 / 10), (''book'', 2 / 10),
                    (''door'', 1 / 10), (''wall'', 1 / 10)])]
           (ContextManager_with_capacity 20))"
    by (simp add: trusted_hasVisual_def processWindow_def updateImageLRU_def clearCurrentWindow_def
        Let_def addImageResult_def ContextManager_with_capacity_def keep_max_def map_has_def
        map_get_def LRUCache_set_def LRUCache_new_def first_key_def hasVisualCat_def hasCatSound_def
        calculateTrustBasedFocus_def determineState_def LRUCache_recent_def js_slice_def
        map_values_def map_delete_def lru_key_def toLowerCase_def toLowerCase_char_def)
  from a b c d e show ?thesis by blast
qed

theorem trust_override_witness:
  "\<not> hasVisualCat (run_windows ((1000, [(''cat'', 9 / 10)]) #
        map (\<lambda>t. (t, [])) [2000, 3000, 4000, 5000, 6000, 7000, 8000, 9000, 10000])
        (ContextManager_with_capacity 20))
   \<and> trusted_hasVisual (run_windows ((1000, [(''cat'', 9 / 10)]) #
        map (\<lambda>t. (t, [])) [2000, 3000, 4000, 5000, 6000, 7000, 8000, 9000, 10000])
        (ContextManager_with_capacity 20))
   \<and> (\<exists>e\<in>set (LRUCache_recent 10 (image_lru (run_windows [(1000, [(''cat'', 9 / 10)])]
        (ContextManager_with_capacity 20)))). isCat e)
   \<and> trusted_hasVisual (run_windows [(1000, [(''cat'', 9 / 10)])] (ContextManager_with_capacity 20))
   \<and> calculateFocusState idle
        \<lparr>has_stateManager = True,
         lruCache = Some (image_lru (run_windows [(1000, [(''cat'', 9 / 10)])] (ContextManager_with_capacity 20))),
         currentImageMap = [], currentAudioMap = []\<rparr>
   \<and> \<not> trusted_hasVisual (ContextManager_with_capacity 20)
   \<and> list_all (\<lambda>e. \<not> isCat e) (LRUCache_recent 10 (image_lru (ContextManager_with_capacity 20)))"
proof -
  let ?cm = "run_windows [(1000, [(''cat'', 9 / 10)])] (ContextManager_with_capacity 20)"
  let ?wp = "\<lparr>has_stateManager = True, lruCache = Some (image_lru ?cm),
         currentImageMap = [], currentAudioMap = []\<rparr>"
  have ex: "\<exists>e\<in>set (LRUCache_recent 10 (image_lru ?cm)). isCat e"
    using first_window[of 1000 20]
    by (simp add: LRUCache_recent_def js_slice_def map_values_def)
  have nv: "\<not> hasVisualCat ?cm"
    using first_window[of 1000 20] by (simp add: hasVisualCat_def)
  have lc: "lruCache ?wp = Some (image_lru ?cm)" by simp
  have n0: "\<not> trusted_hasVisual (ContextManager_with_capacity 20)"
    by (simp add: trusted_hasVisual_def hasVisualCat_def ContextManager_with_capacity_def
        LRUCache_new_def LRUCache_recent_def js_slice_def map_values_def)
  note a = trust_override[where N = 20 and ?t1.0 = 1000
        and ts = "[2000, 3000, 4000, 5000, 6000, 7000, 8000, 9000, 10000]"
        and cm = ?cm and wp = ?wp and lru = "image_lru ?cm" and currentState = idle]
  note b = trust_override[where N = 20 and ?t1.0 = 1000 and ts = "[]"
        and cm = "ContextManager_with_capacity 20" and wp = ?wp and lru = "image_lru ?cm"
        and currentState = idle]
  from a ex nv have t1: "trusted_hasVisual ?cm" by blast
  from a ex lc have t2: "calculateFocusState idle ?wp" by blast
  from b n0 have "\<forall>e\<in>set (LRUCache_recent 10 (image_lru (ContextManager_with_capacity 20))). \<not> isCat e"
    by blast
  then have t3: "list_all (\<lambda>e. \<not> isCat e) (LRUCache_recent 10 (image_lru (ContextManager_with_capacity 20)))"
    by (simp add: list_all_iff)
  from a have t4: "\<not> hasVisualCat (run_windows ((1000, [(''cat'', 9 / 10)]) #
        map (\<lambda>t. (t, [])) [2000, 3000, 4000, 5000, 6000, 7000, 8000, 9000, 10000])
        (ContextManager_with_capacity 20))
   \<and> trusted_hasVisual (run_windows ((1000, [(''cat'', 9 / 10)]) #
        map (\<lambda>t. (t, [])) [2000, 3000, 4000, 5000, 6000, 7000, 8000, 9000, 10000])
        (ContextManager_with_capacity 20))"
    by simp
  from t4 ex t1 t2 n0 t3 show ?thesis by blast
qed

section \<open>The emotion classifier\<close>

text \<open>
  Claim C6. The feature vector with zeroCrossingRate 0.01, spectralCentroid 800,
  spectralRolloff 0.2, energy 0.00001 and rms 0.001 is said to normalize to low values
  and to be classified as comfortable, in the category friendly. In the code the energy
  is scaled by 1000000 and the rms by 1000, so both normalize to the cap 1; the
  comfortable rule needs a normalized energy below 0.2 and gives 0, no other rule
  matches, and the result is null.
\<close>

theorem quiet_example_is_not_classified:
  "normalize \<lparr>zeroCrossingRate = 1 / 100, spectralCentroid = 800, spectralRolloff = 2 / 10,
              energy = 1 / 100000, rms = 1 / 1000\<rparr>
     = \<lparr>normalizedZCR = 1 / 10, normalizedCentroid = 4 / 25, normalizedRolloff = 2 / 5,
        normalizedEnergy = 1, normalizedRMS = 1\<rparr>
   \<and> rule_comfortable (normalize \<lparr>zeroCrossingRate = 1 / 100, spectralCentroid = 800,
        spectralRolloff = 2 / 10, energy = 1 / 100000, rms = 1 / 1000\<rparr>) = 0
   \<and> classifyEmotion \<lparr>zeroCrossingRate = 1 / 100, spectralCentroid = 800, spectralRolloff = 2 / 10,
        energy = 1 / 100000, rms = 1 / 1000\<rparr> = None"
  by code_simp
lemma fold_max_ge: "c \<le> fold (\<lambda>r m. max (snd r n) m) rs (c :: real)"
proof (induction rs arbitrary: c)
  case Nil
  then show ?case by simp
next
  case (Cons r rs)
  have "max (snd r n) c \<le> fold (\<lambda>r m. max (snd r n) m) rs (max (snd r n) c)" by (rule Cons.IH)
  then show ?case by simp
qed

lemma fold_max_attained:
  "c < fold (\<lambda>r m. max (snd r n) m) rs (c :: real) \<Longrightarrow>
   \<exists>r\<in>set rs. snd r n = fold (\<lambda>r m. max (snd r n) m) rs c"
proof (induction rs arbitrary: c)
  case Nil
  then show ?case by simp
next
  case (Cons r rs)
  let ?c' = "max (snd r n) c"
  let ?h = "fold (\<lambda>r m. max (snd r n) m) rs ?c'"
  have h: "fold (\<lambda>r m. max (snd r n) m) (r # rs) c = ?h" by simp
  show ?case
  proof (cases "?c' < ?h")
    case True
    from Cons.IH[OF True] show ?thesis by (simp add: h)
  next
    case False
    then have a: "?h \<le> ?c'" by (simp only: not_less)
    have b: "?c' \<le> ?h" by (rule fold_max_ge)
    from a b have eq: "?h = ?c'" by (rule order.antisym)
    from Cons.prems h eq have "c < ?c'" by linarith
    then have "?c' = snd r n" by (auto simp: max_def split: if_splits)
    with eq show ?thesis by (simp add: h)
  qed
qed

lemma best_match_loop_spec:
  assumes "case acc of None \<Rightarrow> True | Some b \<Rightarrow> match_confidence b > 0"
  shows "best_match_loop n rs acc =
     (let c = (case acc of None \<Rightarrow> 0 | Some b \<Rightarrow> match_confidence b);
          h = fold (\<lambda>r m. max (snd r n) m) rs c
      in if h \<le> c then acc
         else map_option (\<lambda>r. \<lparr>match_emotionId = fst r, match_confidence = h\<rparr>)
                (find (\<lambda>r. snd r n = h) rs))"
  using assms
proof (induction rs arbitrary: acc)
  case Nil
  then show ?case by simp
next
  case (Cons r rs)
  let ?c = "case acc of None \<Rightarrow> 0 | Some b \<Rightarrow> match_confidence b"
  have c0: "0 \<le> ?c" using Cons.prems by (cases acc) auto
  show ?case
  proof (cases "snd r n > 0 \<and> (case acc of None \<Rightarrow> True | Some b \<Rightarrow> snd r n > match_confidence b)")
    case True
    let ?acc' = "Some \<lparr>match_emotionId = fst r, match_confidence = snd r n\<rparr>"
    have gt: "?c < snd r n" using True by (cases acc) auto
    have step: "best_match_loop n (r # rs) acc = best_match_loop n rs ?acc'"
      using True by (auto simp: Let_def)
    have mx: "max (snd r n) ?c = snd r n" using gt by simp
    let ?h = "fold (\<lambda>r m. max (snd r n) m) rs (snd r n)"
    have ih: "best_match_loop n rs ?acc' =
       (if ?h \<le> snd r n then ?acc'
        else map_option (\<lambda>r. \<lparr>match_emotionId = fst r, match_confidence = ?h\<rparr>)
                (find (\<lambda>r. snd r n = ?h) rs))"
      using Cons.IH[of ?acc'] True by (simp add: Let_def)
    have ge: "snd r n \<le> ?h" by (rule fold_max_ge)
    have hc: "\<not> ?h \<le> ?c" using ge gt by simp
    show ?thesis
    proof (cases "?h \<le> snd r n")
      case le: True
      with ge have "?h = snd r n" by simp
      then show ?thesis using step ih hc mx by (simp add: Let_def)
    next
      case nle: False
      then have "snd r n \<noteq> ?h" by simp
      then show ?thesis using step ih hc mx nle by (simp add: Let_def)
    qed
  next
    case False
    have le: "snd r n \<le> ?c"
    proof (cases acc)
      case None
      with False show ?thesis by simp
    next
      case (Some b)
      with False Cons.prems show ?thesis by (cases "snd r n > 0") auto
    qed
    have step: "best_match_loop n (r # rs) acc = best_match_loop n rs acc"
      using False by (auto simp: Let_def)
    have mx: "max (snd r n) ?c = ?c" using le by simp
    let ?h = "fold (\<lambda>r m. max (snd r n) m) rs ?c"
    have ih: "best_match_loop n rs acc =
       (if ?h \<le> ?c then acc
        else map_option (\<lambda>r. \<lparr>match_emotionId = fst r, match_confidence = ?h\<rparr>)
                (find (\<lambda>r. snd r n = ?h) rs))"
      using Cons.IH[OF Cons.prems] by (simp add: Let_def)
    show ?thesis
    proof (cases "?h \<le> ?c")
      case True
      then show ?thesis using step ih mx by (simp add: Let_def)
    next
      case nle: False
      then have "snd r n \<noteq> ?h" using le by simp
      then show ?thesis using step ih mx nle by (simp add: Let_def)
    qed
  qed
qed

lemma best_match_from_none:
  "best_match_loop n rs None =
     (if highest n rs \<le> 0 then None
      else map_option (\<lambda>r. \<lparr>match_emotionId = fst r, match_confidence = highest n rs\<rparr>)
             (find (\<lambda>r. snd r n = highest n rs) rs))"
  using best_match_loop_spec[of None n rs] by (simp add: highest_def Let_def)

lemma highest_attained:
  "0 < highest n rs \<Longrightarrow> \<exists>r. find (\<lambda>r. snd r n = highest n rs) rs = Some r \<and> r \<in> set rs"
proof -
  assume "0 < highest n rs"
  then have "\<exists>r\<in>set rs. snd r n = highest n rs"
    unfolding highest_def by (rule fold_max_attained)
  then obtain r where "find (\<lambda>r. snd r n = highest n rs) rs = Some r"
    by (cases "find (\<lambda>r. snd r n = highest n rs) rs") (auto simp: find_None_iff)
  moreover then have "r \<in> set rs" by (auto simp: find_Some_iff)
  ultimately show ?thesis by blast
qed

lemma classifyEmotion_by_table: "classifyEmotion features = classify_by_rule_table features"
proof (cases "highest (normalize features) rules \<le> 0")
  case True
  then show ?thesis
    by (simp add: classifyEmotion_def classify_by_rule_table_def best_match_from_none Let_def)
next
  case False
  then show ?thesis
    by (cases "find (\<lambda>r. snd r (normalize features) = highest (normalize features) rules) rules")
       (auto simp: classifyEmotion_def classify_by_rule_table_def best_match_from_none Let_def
          split: option.splits)
qed

lemma rule_lookups:
  "\<forall>r\<in>set rules. \<exists>em cat. getEmotion (fst r) = Some em \<and> getCategory (categoryId em) = Some cat"
  by (simp add: rules_def getEmotion_def emotions_def getCategory_def emotionCategories_def)

lemma rules_fixed:
  "\<forall>r\<in>set rules. fst r \<noteq> ''comfortable'' \<longrightarrow> (\<exists>c. \<forall>n. snd r n = 0 \<or> snd r n = c)"
proof -
  have c_satisfy: "\<exists>c. \<forall>n. rule_satisfy n = 0 \<or> rule_satisfy n = c"
    by (rule exI[of _ "8 / 10"]) (simp add: rule_satisfy_def)
  have c_call: "\<exists>c. \<forall>n. rule_call n = 0 \<or> rule_call n = c"
    by (rule exI[of _ "75 / 100"]) (simp add: rule_call_def)
  have c_flighty: "\<exists>c. \<forall>n. rule_flighty n = 0 \<or> rule_flighty n = c"
    by (rule exI[of _ "7 / 10"]) (simp add: rule_flighty_def)
  have c_yummy: "\<exists>c. \<forall>n. rule_yummy n = 0 \<or> rule_yummy n = c"
    by (rule exI[of _ "75 / 100"]) (simp add: rule_yummy_def)
  have c_hello: "\<exists>c. \<forall>n. rule_hello n = 0 \<or> rule_hello n = c"
    by (rule exI[of _ "8 / 10"]) (simp add: rule_hello_def)
  have c_for_food: "\<exists>c. \<forall>n. rule_for_food n = 0 \<or> rule_for_food n = c"
    by (rule exI[of _ "85 / 100"]) (simp add: rule_for_food_def)
  have c_ask_for_play: "\<exists>c. \<forall>n. rule_ask_for_play n = 0 \<or> rule_ask_for_play n = c"
    by (rule exI[of _ "8 / 10"]) (simp add: rule_ask_for_play_def)
  have c_ask_for_hunting: "\<exists>c. \<forall>n. rule_ask_for_hunting n = 0 \<or> rule_ask_for_hunting n = c"
    by (rule exI[of _ "85 / 100"]) (simp add: rule_ask_for_hunting_def)
  have c_curious: "\<exists>c. \<forall>n. rule_curious n = 0 \<or> rule_curious n = c"
    by (rule exI[of _ "6 / 10"]) (simp add: rule_curious_def)
  have c_find_mom: "\<exists>c. \<forall>n. rule_find_mom n = 0 \<or> rule_find_mom n = c"
    by (rule exI[of _ "9 / 10"]) (simp add: rule_find_mom_def)
  have c_anxious: "\<exists>c. \<forall>n. rule_anxious n = 0 \<or> rule_anxious n = c"
    by (rule exI[of _ "85 / 100"]) (simp add: rule_anxious_def)
  have c_discomfort: "\<exists>c. \<forall>n. rule_discomfort n = 0 \<or> rule_discomfort n = c"
    by (rule exI[of _ "7 / 10"]) (simp add: rule_discomfort_def)
  have c_courtship: "\<exists>c. \<forall>n. rule_courtship n = 0 \<or> rule_courtship n = c"
    by (rule exI[of _ "75 / 100"]) (simp add: rule_courtship_def)
  have c_for_fight: "\<exists>c. \<forall>n. rule_for_fight n = 0 \<or> rule_for_fight n = c"
    by (rule exI[of _ "95 / 100"]) (simp add: rule_for_fight_def)
  have c_dieaway: "\<exists>c. \<forall>n. rule_dieaway n = 0 \<or> rule_dieaway n = c"
    by (rule exI[of _ "9 / 10"]) (simp add: rule_dieaway_def)
  have c_goout: "\<exists>c. \<forall>n. rule_goout n = 0 \<or> rule_goout n = c"
    by (rule exI[of _ "85 / 100"]) (simp add: rule_goout_def)
  have c_warning: "\<exists>c. \<forall>n. rule_warning n = 0 \<or> rule_warning n = c"
    by (rule exI[of _ "8 / 10"]) (simp add: rule_warning_def)
  have c_alert: "\<exists>c. \<forall>n. rule_alert n = 0 \<or> rule_alert n = c"
    by (rule exI[of _ "8 / 10"]) (simp add: rule_alert_def)
  have c_goaway: "\<exists>c. \<forall>n. rule_goaway n = 0 \<or> rule_goaway n = c"
    by (rule exI[of _ "75 / 100"]) (simp add: rule_goaway_def)
  have c_unhappy: "\<exists>c. \<forall>n. rule_unhappy n = 0 \<or> rule_unhappy n = c"
    by (rule exI[of _ "7 / 10"]) (simp add: rule_unhappy_def)
  show ?thesis
    by (simp add: rules_def c_satisfy c_call c_flighty c_yummy c_hello c_for_food c_ask_for_play c_ask_for_hunting c_curious c_find_mom c_anxious c_discomfort c_courtship c_for_fight c_dieaway c_goout c_warning c_alert c_goaway c_unhappy)
qed

text \<open>
  Claim C5, as the code has it. \<open>classifyEmotion\<close> is a function of the feature vector.
  Its table has 21 rules. Each rule but the first gives 0 or one fixed confidence; the
  first, comfortable, gives 0 or 0.9 minus the normalized energy, so its confidence
  varies with the input. The result is that of the rule with the highest confidence, the
  first of the table among equals; it is null exactly when the highest confidence is at
  most 0.5, and otherwise carries the identifier of that rule, its emotion, the category
  of the emotion and the confidence (every identifier of the table has an emotion with a
  category).
\<close>

theorem classifier_semantics:
  "length rules = 21
   \<and> (\<forall>r\<in>set rules. fst r \<noteq> ''comfortable'' \<longrightarrow> (\<exists>c. \<forall>n. snd r n = 0 \<or> snd r n = c))
   \<and> fst (hd rules) = ''comfortable''
   \<and> (snd (hd rules) n = 0 \<or> snd (hd rules) n = 9 / 10 - normalizedEnergy n)
   \<and> (\<forall>r\<in>set rules. \<exists>em cat. getEmotion (fst r) = Some em \<and> getCategory (categoryId em) = Some cat)
   \<and> classifyEmotion features = classify_by_rule_table features
   \<and> (classifyEmotion features = None) = (highest (normalize features) rules \<le> 5 / 10)"
proof -
  have a: "length rules = 21" by (simp add: rules_def)
  have c: "fst (hd rules) = ''comfortable''" by (simp add: rules_def)
  have d: "snd (hd rules) n = 0 \<or> snd (hd rules) n = 9 / 10 - normalizedEnergy n"
    by (simp add: rules_def rule_comfortable_def)
  have f: "classifyEmotion features = classify_by_rule_table features"
    by (rule classifyEmotion_by_table)
  have g: "(classifyEmotion features = None) = (highest (normalize features) rules \<le> 5 / 10)"
  proof (cases "highest (normalize features) rules \<le> 5 / 10")
    case True
    then show ?thesis by (simp add: f classify_by_rule_table_def Let_def)
  next
    case False
    then have "0 < highest (normalize features) rules" by simp
    from highest_attained[OF this] obtain r where
      r: "find (\<lambda>r. snd r (normalize features) = highest (normalize features) rules) rules = Some r"
      and m: "r \<in> set rules" by blast
    from rule_lookups m obtain em cat where
      "getEmotion (fst r) = Some em" "getCategory (categoryId em) = Some cat" by blast
    with r False show ?thesis by (simp add: f classify_by_rule_table_def Let_def)
  qed
  from a rules_fixed c d rule_lookups f g show ?thesis by blast
qed

theorem classifier_semantics_witness:
  "(''satisfy'', rule_satisfy) \<in> set rules
   \<and> (\<exists>c. \<forall>n. rule_satisfy n = 0 \<or> rule_satisfy n = c)
   \<and> (\<exists>em cat. getEmotion ''satisfy'' = Some em \<and> getCategory (categoryId em) = Some cat)
   \<and> classifyEmotion \<lparr>zeroCrossingRate = 1 / 100, spectralCentroid = 800, spectralRolloff = 2 / 10,
        energy = 1 / 10000000, rms = 1 / 10000\<rparr>
      = classify_by_rule_table \<lparr>zeroCrossingRate = 1 / 100, spectralCentroid = 800,
        spectralRolloff = 2 / 10, energy = 1 / 10000000, rms = 1 / 10000\<rparr>"
proof -
  have m: "(''satisfy'', rule_satisfy) \<in> set rules" by (simp add: rules_def)
  note t = classifier_semantics[where n = "normalize \<lparr>zeroCrossingRate = 1 / 100, spectralCentroid = 800,
        spectralRolloff = 2 / 10, energy = 1 / 10000000, rms = 1 / 10000\<rparr>"
      and features = "\<lparr>zeroCrossingRate = 1 / 100, spectralCentroid = 800,
        spectralRolloff = 2 / 10, energy = 1 / 10000000, rms = 1 / 10000\<rparr>"]
  from t have "\<forall>r\<in>set rules. fst r \<noteq> ''comfortable'' \<longrightarrow> (\<exists>c. \<forall>n. snd r n = 0 \<or> snd r n = c)"
    by blast
  with m have x: "\<exists>c. \<forall>n. rule_satisfy n = 0 \<or> rule_satisfy n = c" by fastforce
  from t have "\<forall>r\<in>set rules. \<exists>em cat. getEmotion (fst r) = Some em \<and> getCategory (categoryId em) = Some cat"
    by blast
  with m have y: "\<exists>em cat. getEmotion ''satisfy'' = Some em \<and> getCategory (categoryId em) = Some cat"
    by fastforce
  from t m x y show ?thesis by blast
qed

text \<open>
  The claim as stated, that every rule gives 0 or a fixed confidence, fails for the
  comfortable rule: two quiet inputs that differ in their energy are both classified as
  comfortable, with the confidences 0.9 and 0.8.
\<close>

theorem comfortable_confidence_varies:
  "rule_comfortable (normalize \<lparr>zeroCrossingRate = 1 / 100, spectralCentroid = 800,
        spectralRolloff = 2 / 10, energy = 0, rms = 0\<rparr>) = 9 / 10
   \<and> rule_comfortable (normalize \<lparr>zeroCrossingRate = 1 / 100, spectralCentroid = 800,
        spectralRolloff = 2 / 10, energy = 1 / 10000000, rms = 1 / 10000\<rparr>) = 8 / 10
   \<and> map_option emotionId
        (classifyEmotion \<lparr>zeroCrossingRate = 1 / 100, spectralCentroid = 800,
           spectralRolloff = 2 / 10, energy = 0, rms = 0\<rparr>) = Some ''comfortable''
   \<and> map_option confidence
        (classifyEmotion \<lparr>zeroCrossingRate = 1 / 100, spectralCentroid = 800,
           spectralRolloff = 2 / 10, energy = 0, rms = 0\<rparr>) = Some (9 / 10)
   \<and> map_option emotionId
        (classifyEmotion \<lparr>zeroCrossingRate = 1 / 100, spectralCentroid = 800,
           spectralRolloff = 2 / 10, energy = 1 / 10000000, rms = 1 / 10000\<rparr>) = Some ''comfortable''
   \<and> map_option confidence
        (classifyEmotion \<lparr>zeroCrossingRate = 1 / 100, spectralCentroid = 800,
           spectralRolloff = 2 / 10, energy = 1 / 10000000, rms = 1 / 10000\<rparr>) = Some (8 / 10)"
  by (simp add: classifyEmotion_def normalize_def rules_def Let_def
      getEmotion_def emotions_def getCategory_def emotionCategories_def
      rule_comfortable_def rule_satisfy_def rule_call_def rule_flighty_def rule_yummy_def
      rule_hello_def rule_for_food_def rule_ask_for_play_def rule_ask_for_hunting_def
      rule_curious_def rule_find_mom_def rule_anxious_def rule_discomfort_def rule_courtship_def
      rule_for_fight_def rule_dieaway_def rule_goout_def rule_warning_def rule_alert_def
      rule_goaway_def rule_unhappy_def)

section \<open>The deep-analysis channel\<close>

lemma canCall_keeps: "no_call_recorded now rl (snd (canCall now rl))"
  by (simp add: canCall_def no_call_recorded_def Let_def)

lemma canCall_fields:
  "minIntervalMs (snd (canCall now rl)) = minIntervalMs rl \<and>
   maxPerMinute (snd (canCall now rl)) = maxPerMinute rl"
  by (simp add: canCall_def Let_def)

lemma canCall_true_state:
  "fst (canCall now rl) \<Longrightarrow>
   snd (canCall now rl) = rl\<lparr>callsInLastMinute := filter (\<lambda>t. now - t < 60000) (callsInLastMinute rl)\<rparr>"
  by (simp add: canCall_def Let_def split: if_splits)

lemma analyze_enter_declined:
  "\<not> enabled ch \<or> isProcessing ch \<or> \<not> fst (canCall now (rateLimiter ch)) \<Longrightarrow>
   fst (analyze_enter now ch) = Declined \<and>
   no_call_recorded now (rateLimiter ch) (rateLimiter (snd (analyze_enter now ch))) \<and>
   lock (snd (analyze_enter now ch)) = lock ch \<and>
   isProcessing (snd (analyze_enter now ch)) = isProcessing ch \<and>
   pendingRequest (snd (analyze_enter now ch)) = pendingRequest ch"
  using canCall_keeps[of now "rateLimiter ch"]
  by (cases "canCall now (rateLimiter ch)") (auto simp: analyze_enter_def no_call_recorded_def)

lemma analyze_enter_in_flight:
  "enabled ch \<and> \<not> isProcessing ch \<and> fst (canCall now (rateLimiter ch)) \<Longrightarrow>
   analyze_enter now ch =
     (InFlight, ch\<lparr>rateLimiter := (rateLimiter ch)\<lparr>callsInLastMinute :=
                      filter (\<lambda>t. now - t < 60000) (callsInLastMinute (rateLimiter ch))\<rparr>,
                    isProcessing := True\<rparr>)"
  using canCall_true_state[of now "rateLimiter ch"]
  by (cases "canCall now (rateLimiter ch)") (auto simp: analyze_enter_def)

lemma analyze_resume_no_result:
  "api = Returned None \<or> api = Thrown err \<Longrightarrow>
   analyze_resume now api ch = (None, ch\<lparr>isProcessing := False\<rparr>)"
  by (auto simp: analyze_resume_def)

lemma analyze_resume_result:
  "analyze_resume now (Returned (Some r)) ch =
     (Some r, ch\<lparr>rateLimiter := recordCall now (rateLimiter ch),
                  lock := \<lparr>lock_text = result_text r, lock_until = now + 30000, lock_data = result_data r\<rparr>,
                  isProcessing := False\<rparr>)"
  by (simp add: analyze_resume_def setLock_def)

lemma analyze_resume_clears: "\<not> isProcessing (snd (analyze_resume now api ch))"
  by (cases api rule: settled.exhaust; cases "case api of Returned r \<Rightarrow> r | _ \<Rightarrow> None")
     (auto simp: analyze_resume_def setLock_def split: option.splits settled.splits)


text \<open>
  Claim C10. \<open>analyze\<close> records a call in the rate limiter (the time of the last call
  and a new entry of the list) and rewrites the lock only when \<open>callAPI\<close> returns a
  result that is not null. A declined call (channel disabled, a call in flight, or the
  rate limiter refusing) and a call whose \<open>callAPI\<close> returns null or throws return
  null, record no call and leave the lock as it was. \<open>canCall\<close> itself drops the
  entries older than a minute; that is all a declined or failed call changes in the rate
  limiter.
\<close>

theorem analyze_records_and_locks_only_on_result:
  "(\<not> enabled ch \<or> isProcessing ch \<or> \<not> fst (canCall t0 (rateLimiter ch)) \<longrightarrow>
      fst (analyze t0 api t1 ch) = None
      \<and> no_call_recorded t0 (rateLimiter ch) (rateLimiter (snd (analyze t0 api t1 ch)))
      \<and> lock (snd (analyze t0 api t1 ch)) = lock ch)
   \<and> (api = Returned None \<or> api = Thrown err \<longrightarrow>
      fst (analyze t0 api t1 ch) = None
      \<and> no_call_recorded t0 (rateLimiter ch) (rateLimiter (snd (analyze t0 api t1 ch)))
      \<and> lock (snd (analyze t0 api t1 ch)) = lock ch)
   \<and> (api = Returned None \<or> api = Thrown err \<longrightarrow>
      fst (analyze_resume t1 api ch) = None
      \<and> rateLimiter (snd (analyze_resume t1 api ch)) = rateLimiter ch
      \<and> lock (snd (analyze_resume t1 api ch)) = lock ch)
   \<and> (enabled ch \<and> \<not> isProcessing ch \<and> fst (canCall t0 (rateLimiter ch)) \<and> api = Returned (Some r) \<longrightarrow>
      fst (analyze t0 api t1 ch) = Some r
      \<and> lastCallTime (rateLimiter (snd (analyze t0 api t1 ch))) = t1
      \<and> callsInLastMinute (rateLimiter (snd (analyze t0 api t1 ch))) =
          filter (\<lambda>t. t0 - t < 60000) (callsInLastMinute (rateLimiter ch)) @ [t1]
      \<and> lock (snd (analyze t0 api t1 ch)) =
          \<lparr>lock_text = result_text r, lock_until = t1 + 30000, lock_data = result_data r\<rparr>)"
proof -
  have a: "\<not> enabled ch \<or> isProcessing ch \<or> \<not> fst (canCall t0 (rateLimiter ch)) \<longrightarrow>
      fst (analyze t0 api t1 ch) = None
      \<and> no_call_recorded t0 (rateLimiter ch) (rateLimiter (snd (analyze t0 api t1 ch)))
      \<and> lock (snd (analyze t0 api t1 ch)) = lock ch"
  proof
    assume d: "\<not> enabled ch \<or> isProcessing ch \<or> \<not> fst (canCall t0 (rateLimiter ch))"
    from analyze_enter_declined[OF d]
    have "analyze t0 api t1 ch = (None, snd (analyze_enter t0 ch))"
      by (cases "analyze_enter t0 ch") (simp add: analyze_def)
    with analyze_enter_declined[OF d] show "fst (analyze t0 api t1 ch) = None
      \<and> no_call_recorded t0 (rateLimiter ch) (rateLimiter (snd (analyze t0 api t1 ch)))
      \<and> lock (snd (analyze t0 api t1 ch)) = lock ch" by simp
  qed
  have c: "api = Returned None \<or> api = Thrown err \<longrightarrow>
      fst (analyze_resume t1 api ch) = None
      \<and> rateLimiter (snd (analyze_resume t1 api ch)) = rateLimiter ch
      \<and> lock (snd (analyze_resume t1 api ch)) = lock ch"
    using analyze_resume_no_result[of api err t1 ch] by auto
  have b: "api = Returned None \<or> api = Thrown err \<longrightarrow>
      fst (analyze t0 api t1 ch) = None
      \<and> no_call_recorded t0 (rateLimiter ch) (rateLimiter (snd (analyze t0 api t1 ch)))
      \<and> lock (snd (analyze t0 api t1 ch)) = lock ch"
  proof
    assume n: "api = Returned None \<or> api = Thrown err"
    show "fst (analyze t0 api t1 ch) = None
      \<and> no_call_recorded t0 (rateLimiter ch) (rateLimiter (snd (analyze t0 api t1 ch)))
      \<and> lock (snd (analyze t0 api t1 ch)) = lock ch"
    proof (cases "\<not> enabled ch \<or> isProcessing ch \<or> \<not> fst (canCall t0 (rateLimiter ch))")
      case True
      with a show ?thesis by blast
    next
      case False
      then have e: "enabled ch \<and> \<not> isProcessing ch \<and> fst (canCall t0 (rateLimiter ch))" by blast
      show ?thesis
        using analyze_resume_no_result[OF n]
        by (simp add: analyze_def analyze_enter_in_flight[OF e] no_call_recorded_def)
    qed
  qed
  have d: "enabled ch \<and> \<not> isProcessing ch \<and> fst (canCall t0 (rateLimiter ch)) \<and> api = Returned (Some r) \<longrightarrow>
      fst (analyze t0 api t1 ch) = Some r
      \<and> lastCallTime (rateLimiter (snd (analyze t0 api t1 ch))) = t1
      \<and> callsInLastMinute (rateLimiter (snd (analyze t0 api t1 ch))) =
          filter (\<lambda>t. t0 - t < 60000) (callsInLastMinute (rateLimiter ch)) @ [t1]
      \<and> lock (snd (analyze t0 api t1 ch)) =
          \<lparr>lock_text = result_text r, lock_until = t1 + 30000, lock_data = result_data r\<rparr>"
  proof
    assume h: "enabled ch \<and> \<not> isProcessing ch \<and> fst (canCall t0 (rateLimiter ch)) \<and> api = Returned (Some r)"
    then have e: "enabled ch \<and> \<not> isProcessing ch \<and> fst (canCall t0 (rateLimiter ch))" by blast
    from h show "fst (analyze t0 api t1 ch) = Some r
      \<and> lastCallTime (rateLimiter (snd (analyze t0 api t1 ch))) = t1
      \<and> callsInLastMinute (rateLimiter (snd (analyze t0 api t1 ch))) =
          filter (\<lambda>t. t0 - t < 60000) (callsInLastMinute (rateLimiter ch)) @ [t1]
      \<and> lock (snd (analyze t0 api t1 ch)) =
          \<lparr>lock_text = result_text r, lock_until = t1 + 30000, lock_data = result_data r\<rparr>"
      by (simp add: analyze_def analyze_enter_in_flight[OF e] analyze_resume_result recordCall_def)
  qed
  from a b c d show ?thesis by blast
qed

theorem analyze_records_and_locks_only_on_result_witness:
  "fst (analyze 1000000 (Thrown (ascii ''timeout'')) 1003000 (VLMChannel_new ''vision'' None None None)) = None
   \<and> lock (snd (analyze 1000000 (Thrown (ascii ''timeout'')) 1003000
          (VLMChannel_new ''vision'' None None None))) = lock (VLMChannel_new ''vision'' None None None)
   \<and> fst (analyze 1000000 (Returned (Some \<lparr>result_text = Some (ascii ''a cat''), result_data = None\<rparr>)) 1003000
          ((VLMChannel_new ''vision'' None None None)\<lparr>isProcessing := True\<rparr>)) = None
   \<and> lastCallTime (rateLimiter (snd (analyze 1000000
          (Returned (Some \<lparr>result_text = Some (ascii ''a cat''), result_data = None\<rparr>)) 1003000
          (VLMChannel_new ''vision'' None None None)))) = 1003000
   \<and> lock_until (lock (snd (analyze 1000000
          (Returned (Some \<lparr>result_text = Some (ascii ''a cat''), result_data = None\<rparr>)) 1003000
          (VLMChannel_new ''vision'' None None None)))) = 1033000"
  using analyze_records_and_locks_only_on_result[where ch = "VLMChannel_new ''vision'' None None None"
      and ?t0.0 = 1000000 and ?t1.0 = 1003000 and api = "Thrown (ascii ''timeout'')"
      and err = "ascii ''timeout''"]
    analyze_records_and_locks_only_on_result[where
      ch = "(VLMChannel_new ''vision'' None None None)\<lparr>isProcessing := True\<rparr>"
      and ?t0.0 = 1000000 and ?t1.0 = 1003000
      and api = "Returned (Some \<lparr>result_text = Some (ascii ''a cat''), result_data = None\<rparr>)"]
    analyze_records_and_locks_only_on_result[where ch = "VLMChannel_new ''vision'' None None None"
      and ?t0.0 = 1000000 and ?t1.0 = 1003000
      and api = "Returned (Some \<lparr>result_text = Some (ascii ''a cat''), result_data = None\<rparr>)"
      and r = "\<lparr>result_text = Some (ascii ''a cat''), result_data = None\<rparr>"]
  by (simp add: VLMChannel_new_def RateLimiter_new_def canCall_def)

text \<open>
  Claim C8. A call of \<open>analyze\<close> made while a call is in flight on the channel
  (\<open>isProcessing\<close> true) is declined: it returns null and leaves the channel as it
  was, so nothing is queued (\<open>pendingRequest\<close> is never written by \<open>analyze\<close>). When
  the call in flight settles, whether \<open>callAPI\<close> returned a result, returned null or
  threw, the \<open>finally\<close> block clears \<open>isProcessing\<close>: a call that was entered never
  leaves the channel busy.
\<close>

theorem single_flight_guard:
  "(isProcessing ch \<longrightarrow> analyze_enter t0 ch = (Declined, ch) \<and> analyze t0 api t1 ch = (None, ch))
   \<and> \<not> isProcessing (snd (analyze_resume t1 api ch))
   \<and> (\<not> isProcessing ch \<longrightarrow> \<not> isProcessing (snd (analyze t0 api t1 ch)))
   \<and> pendingRequest (snd (analyze t0 api t1 ch)) = pendingRequest ch"
proof -
  have a: "isProcessing ch \<longrightarrow> analyze_enter t0 ch = (Declined, ch) \<and> analyze t0 api t1 ch = (None, ch)"
    by (simp add: analyze_def analyze_enter_def)
  have b: "\<not> isProcessing (snd (analyze_resume t1 api ch))" for ch
    by (rule analyze_resume_clears)
  have p: "pendingRequest (snd (analyze_enter t0 ch)) = pendingRequest ch
      \<and> (fst (analyze_enter t0 ch) = Declined \<longrightarrow> isProcessing (snd (analyze_enter t0 ch)) = isProcessing ch)"
    by (cases "canCall t0 (rateLimiter ch)") (auto simp: analyze_enter_def split: bool.splits)
  have q: "pendingRequest (snd (analyze_resume t1 api ch')) = pendingRequest ch'" for ch'
    by (auto simp: analyze_resume_def setLock_def split: settled.splits option.splits)
  have c: "\<not> isProcessing ch \<longrightarrow> \<not> isProcessing (snd (analyze t0 api t1 ch))"
    using p b[of "snd (analyze_enter t0 ch)"]
    by (cases "analyze_enter t0 ch"; cases "fst (analyze_enter t0 ch)") (auto simp: analyze_def)
  have d: "pendingRequest (snd (analyze t0 api t1 ch)) = pendingRequest ch"
    using p q[of "snd (analyze_enter t0 ch)"]
    by (cases "analyze_enter t0 ch"; cases "fst (analyze_enter t0 ch)") (auto simp: analyze_def)
  from a b c d show ?thesis by blast
qed

theorem single_flight_guard_witness:
  "analyze 1000000 (Returned None) 1003000 ((VLMChannel_new ''vision'' None None None)\<lparr>isProcessing := True\<rparr>)
     = (None, (VLMChannel_new ''vision'' None None None)\<lparr>isProcessing := True\<rparr>)
   \<and> \<not> isProcessing (snd (analyze 1000000 (Thrown (ascii ''timeout'')) 1003000
          (VLMChannel_new ''vision'' None None None)))"
  using single_flight_guard[where ch = "(VLMChannel_new ''vision'' None None None)\<lparr>isProcessing := True\<rparr>"
      and ?t0.0 = 1000000 and ?t1.0 = 1003000 and api = "Returned None"]
    single_flight_guard[where ch = "VLMChannel_new ''vision'' None None None"
      and ?t0.0 = 1000000 and ?t1.0 = 1003000 and api = "Thrown (ascii ''timeout'')"]
  by (simp add: VLMChannel_new_def)

lemma callVisionAPI_failed:
  "request_failed outcome \<Longrightarrow>
   \<exists>msg. callVisionAPI_try outcome = Thrown msg \<and>
     callVisionAPI outcome = Returned (Some \<lparr>result_text = Some analysing_text,
                                             result_data = Some (FallbackData False 0 msg)\<rparr>)"
  by (cases outcome) (auto simp: request_failed_def callVisionAPI_def callVisionAPI_try_def)

lemma getText_after_setLock:
  "lock ch = \<lparr>lock_text = Some txt, lock_until = u, lock_data = d\<rparr> \<Longrightarrow> txt \<noteq> [] \<Longrightarrow>
   getText now ch = (if now < u then Some txt else None)"
  by (simp add: getText_def truthy_text_def)

lemma analysing_text_not_empty: "analysing_text \<noteq> []"
  by (simp add: analysing_text_def)

text \<open>
  Claim C9, as the code has it. A network or service error of the deep-analysis request
  is caught inside \<open>callVisionAPI\<close>, which then returns a fallback result with the
  placeholder text \<open>analysing_text\<close> instead of throwing. \<open>analyze\<close> treats the fallback
  as a result: it records the call and locks the placeholder text for 30000 ms. Until
  the lock expires \<open>getText\<close> yields the placeholder text; from then on it yields null
  and the text of an update is the text of the stable state.
\<close>

theorem failed_call_degrades_to_placeholder:
  "(request_failed outcome \<longrightarrow>
      (\<exists>msg. callVisionAPI outcome =
         Returned (Some \<lparr>result_text = Some analysing_text, result_data = Some (FallbackData False 0 msg)\<rparr>)))
   \<and> (request_failed outcome \<and> channel_type ch = ''vision'' \<and> enabled ch \<and> \<not> isProcessing ch
        \<and> fst (canCall t0 (rateLimiter ch)) \<longrightarrow>
      (\<exists>msg. fst (analyze t0 (callAPI ch outcome) t1 ch) =
         Some \<lparr>result_text = Some analysing_text, result_data = Some (FallbackData False 0 msg)\<rparr>)
      \<and> \<not> isProcessing (snd (analyze t0 (callAPI ch outcome) t1 ch))
      \<and> lastCallTime (rateLimiter (snd (analyze t0 (callAPI ch outcome) t1 ch))) = t1
      \<and> (now < t1 + 30000 \<longrightarrow> getText now (snd (analyze t0 (callAPI ch outcome) t1 ch)) = Some analysing_text)
      \<and> (t1 + 30000 \<le> now \<longrightarrow> getText now (snd (analyze t0 (callAPI ch outcome) t1 ch)) = None))
   \<and> (getText now (vlmVision eng) = None \<longrightarrow> finalText now eng = stateResponses (stable (state eng)))"
proof -
  have a: "request_failed outcome \<longrightarrow>
      (\<exists>msg. callVisionAPI outcome =
         Returned (Some \<lparr>result_text = Some analysing_text, result_data = Some (FallbackData False 0 msg)\<rparr>))"
    using callVisionAPI_failed[of outcome] by blast
  have b: "request_failed outcome \<and> channel_type ch = ''vision'' \<and> enabled ch \<and> \<not> isProcessing ch
        \<and> fst (canCall t0 (rateLimiter ch)) \<longrightarrow>
      (\<exists>msg. fst (analyze t0 (callAPI ch outcome) t1 ch) =
         Some \<lparr>result_text = Some analysing_text, result_data = Some (FallbackData False 0 msg)\<rparr>)
      \<and> \<not> isProcessing (snd (analyze t0 (callAPI ch outcome) t1 ch))
      \<and> lastCallTime (rateLimiter (snd (analyze t0 (callAPI ch outcome) t1 ch))) = t1
      \<and> (now < t1 + 30000 \<longrightarrow> getText now (snd (analyze t0 (callAPI ch outcome) t1 ch)) = Some analysing_text)
      \<and> (t1 + 30000 \<le> now \<longrightarrow> getText now (snd (analyze t0 (callAPI ch outcome) t1 ch)) = None)"
  proof
    assume h: "request_failed outcome \<and> channel_type ch = ''vision'' \<and> enabled ch \<and> \<not> isProcessing ch
        \<and> fst (canCall t0 (rateLimiter ch))"
    then obtain msg where m: "callVisionAPI outcome =
         Returned (Some \<lparr>result_text = Some analysing_text, result_data = Some (FallbackData False 0 msg)\<rparr>)"
      using a by blast
    let ?r = "\<lparr>result_text = Some analysing_text, result_data = Some (FallbackData False 0 msg)\<rparr>"
    have api: "callAPI ch outcome = Returned (Some ?r)" using h m by (simp add: callAPI_def)
    have e: "enabled ch \<and> \<not> isProcessing ch \<and> fst (canCall t0 (rateLimiter ch))" using h by blast
    have res: "analyze t0 (callAPI ch outcome) t1 ch =
      (Some ?r, (snd (analyze_enter t0 ch))\<lparr>rateLimiter := recordCall t1 (rateLimiter (snd (analyze_enter t0 ch))),
                  lock := \<lparr>lock_text = Some analysing_text, lock_until = t1 + 30000,
                           lock_data = Some (FallbackData False 0 msg)\<rparr>,
                  isProcessing := False\<rparr>)"
      by (simp add: analyze_def analyze_enter_in_flight[OF e] api analyze_resume_result)
    have lk: "lock (snd (analyze t0 (callAPI ch outcome) t1 ch)) =
        \<lparr>lock_text = Some analysing_text, lock_until = t1 + 30000, lock_data = Some (FallbackData False 0 msg)\<rparr>"
      by (simp add: res)
    show "(\<exists>msg. fst (analyze t0 (callAPI ch outcome) t1 ch) =
         Some \<lparr>result_text = Some analysing_text, result_data = Some (FallbackData False 0 msg)\<rparr>)
      \<and> \<not> isProcessing (snd (analyze t0 (callAPI ch outcome) t1 ch))
      \<and> lastCallTime (rateLimiter (snd (analyze t0 (callAPI ch outcome) t1 ch))) = t1
      \<and> (now < t1 + 30000 \<longrightarrow> getText now (snd (analyze t0 (callAPI ch outcome) t1 ch)) = Some analysing_text)
      \<and> (t1 + 30000 \<le> now \<longrightarrow> getText now (snd (analyze t0 (callAPI ch outcome) t1 ch)) = None)"
      using getText_after_setLock[OF lk analysing_text_not_empty, of now]
      by (simp add: res recordCall_def)
  qed
  have c: "getText now (vlmVision eng) = None \<longrightarrow> finalText now eng = stateResponses (stable (state eng))"
    by (simp add: finalText_def)
  from a b c show ?thesis by blast
qed

theorem failed_call_degrades_to_placeholder_witness:
  "request_failed (HttpNotOk 500 (ascii ''overloaded''))
   \<and> getText 1002000 (snd (analyze 1000000
       (callAPI (VLMChannel_new ''vision'' None None None) (HttpNotOk 500 (ascii ''overloaded'')))
       1001000 (VLMChannel_new ''vision'' None None None))) = Some analysing_text
   \<and> getText 1031000 (snd (analyze 1000000
       (callAPI (VLMChannel_new ''vision'' None None None) (HttpNotOk 500 (ascii ''overloaded'')))
       1001000 (VLMChannel_new ''vision'' None None None))) = None
   \<and> finalText 1031000 ((MewtEngine_new None)\<lparr>vlmVision := snd (analyze 1000000
       (callAPI (VLMChannel_new ''vision'' None None None) (HttpNotOk 500 (ascii ''overloaded'')))
       1001000 (VLMChannel_new ''vision'' None None None))\<rparr>) = stateResponses idle"
proof -
  have f: "request_failed (HttpNotOk 500 (ascii ''overloaded''))"
    by (simp add: request_failed_def)
  have g: "channel_type (VLMChannel_new ''vision'' None None None) = ''vision''
      \<and> enabled (VLMChannel_new ''vision'' None None None)
      \<and> \<not> isProcessing (VLMChannel_new ''vision'' None None None)
      \<and> fst (canCall 1000000 (rateLimiter (VLMChannel_new ''vision'' None None None)))"
    by (simp add: VLMChannel_new_def RateLimiter_new_def canCall_def)
  show ?thesis
    using f g
      failed_call_degrades_to_placeholder[where outcome = "HttpNotOk 500 (ascii ''overloaded'')"
        and ch = "VLMChannel_new ''vision'' None None None" and ?t0.0 = 1000000 and ?t1.0 = 1001000
        and now = 1002000]
      failed_call_degrades_to_placeholder[where outcome = "HttpNotOk 500 (ascii ''overloaded'')"
        and ch = "VLMChannel_new ''vision'' None None None" and ?t0.0 = 1000000 and ?t1.0 = 1001000
        and now = 1031000
        and eng = "(MewtEngine_new None)\<lparr>vlmVision := snd (analyze 1000000
       (callAPI (VLMChannel_new ''vision'' None None None) (HttpNotOk 500 (ascii ''overloaded'')))
       1001000 (VLMChannel_new ''vision'' None None None))\<rparr>"]
    by (simp add: MewtEngine_new_def DebounceState_new_def)
qed


text \<open>
  The claim as stated, that after a failed call \<open>getText\<close> yields no locked text and the
  text of the state is used, fails: one second after a rejected request the locked text
  is the placeholder, and it is the text of the update, not the text of the idle state.
\<close>

theorem failed_call_locks_placeholder_text:
  "getText 1002000 (snd (analyze 1000000
       (callAPI (VLMChannel_new ''vision'' None None None) (FetchRejected (ascii ''Failed to fetch'')))
       1001000 (VLMChannel_new ''vision'' None None None))) = Some analysing_text
   \<and> finalText 1002000 ((MewtEngine_new None)\<lparr>vlmVision := snd (analyze 1000000
       (callAPI (VLMChannel_new ''vision'' None None None) (FetchRejected (ascii ''Failed to fetch'')))
       1001000 (VLMChannel_new ''vision'' None None None))\<rparr>) = analysing_text
   \<and> analysing_text \<noteq> stateResponses (stable (state (MewtEngine_new None)))"
  by (simp add: analyze_def analyze_enter_def analyze_resume_def canCall_def recordCall_def setLock_def
      getText_def truthy_text_def callAPI_def callVisionAPI_def callVisionAPI_try_def
      VLMChannel_new_def RateLimiter_new_def finalText_def MewtEngine_new_def analysing_text_def
      stateResponses_def DebounceState_new_def)


section \<open>Observer dispatch\<close>


















section \<open>The debounced state machine\<close>

lemma debounce_fields:
  "pending (snd (debounce D now raw st)) = raw
   \<and> changeTime (snd (debounce D now raw st)) = (if raw \<noteq> pending st then now else changeTime st)
   \<and> stable (snd (debounce D now raw st)) =
       (if D \<le> now - (if raw \<noteq> pending st then now else changeTime st) then raw else stable st)
   \<and> lastStable (snd (debounce D now raw st)) =
       (if D \<le> now - (if raw \<noteq> pending st then now else changeTime st) then raw else lastStable st)
   \<and> fst (debounce D now raw st) =
       (if D \<le> now - (if raw \<noteq> pending st then now else changeTime st) \<and> raw \<noteq> lastStable st
        then Some (raw, lastStable st) else None)"
  by (auto simp: debounce_def Let_def)

lemma updates_Cons:
  "fst (updates D (u # us) st) =
     (case fst (debounce D (fst u) (snd u) st) of None \<Rightarrow> [] | Some e \<Rightarrow> [e])
     @ fst (updates D us (snd (debounce D (fst u) (snd u) st)))"
  by (cases "debounce D (fst u) (snd u) st"; cases "updates D us (snd (debounce D (fst u) (snd u) st))")
     simp

lemma flaps_no_transition:
  assumes "0 < D"
  shows "stable st = lastStable st \<Longrightarrow>
     (case prev of None \<Rightarrow> pending st = stable st
      | Some p \<Rightarrow> pending st = fst p \<and> (changeTime st = snd p \<or> pending st = stable st)) \<Longrightarrow>
     flaps D prev us \<Longrightarrow> fst (updates D us st) = []"
proof (induction us arbitrary: st prev)
  case Nil
  then show ?case by simp
next
  case (Cons u us)
  let ?since = "case prev of None \<Rightarrow> fst u | Some (raw, t) \<Rightarrow> if raw = snd u then t else fst u"
  let ?st' = "snd (debounce D (fst u) (snd u) st)"
  from Cons.prems(3) have near: "fst u - ?since < D" and rest: "flaps D (Some (snd u, ?since)) us"
    by (simp_all add: Let_def)
  have ev: "fst (debounce D (fst u) (snd u) st) = None"
    and s1: "stable ?st' = lastStable ?st'"
    and s2: "pending ?st' = snd u \<and> (changeTime ?st' = ?since \<or> pending ?st' = stable ?st')"
    using Cons.prems(1,2) near assms
    by (auto simp: debounce_fields split: option.splits prod.splits if_splits)
  have "fst (updates D us ?st') = []"
    by (rule Cons.IH[OF s1 _ rest]) (use s2 in auto)
  then show ?case by (simp add: updates_Cons ev del: updates.simps)
qed

lemma held_no_reemit:
  "pending st = X \<Longrightarrow> stable st = X \<Longrightarrow> lastStable st = X \<Longrightarrow>
   fst (updates D (map (\<lambda>t. (t, X)) ts) st) = []"
proof (induction ts arbitrary: st)
  case Nil
  then show ?case by simp
next
  case (Cons t ts)
  let ?st' = "snd (debounce D t X st)"
  have "pending ?st' = X" "stable ?st' = X" "lastStable ?st' = X" "fst (debounce D t X st) = None"
    using Cons.prems by (simp_all add: debounce_fields)
  then show ?case using Cons.IH[of ?st'] by (simp add: updates_Cons del: updates.simps)
qed

lemma held_commits_once:
  "pending st = X \<Longrightarrow> changeTime st = t0 \<Longrightarrow> stable st = lastStable st \<Longrightarrow> X \<noteq> stable st \<Longrightarrow>
   fst (updates D (map (\<lambda>t. (t, X)) ts) st) =
     (if \<exists>t\<in>set ts. D \<le> t - t0 then [(X, stable st)] else [])"
proof (induction ts arbitrary: st)
  case Nil
  then show ?case by simp
next
  case (Cons t ts)
  let ?st' = "snd (debounce D t X st)"
  show ?case
  proof (cases "D \<le> t - t0")
    case True
    have "pending ?st' = X" "stable ?st' = X" "lastStable ?st' = X"
      "fst (debounce D t X st) = Some (X, stable st)"
      using Cons.prems True by (simp_all add: debounce_fields)
    then show ?thesis using held_no_reemit[of ?st' X D ts] True by (simp add: updates_Cons del: updates.simps)
  next
    case False
    have "pending ?st' = X" "changeTime ?st' = t0" "stable ?st' = lastStable ?st'"
      "stable ?st' = stable st" "fst (debounce D t X st) = None"
      using Cons.prems False by (simp_all add: debounce_fields)
    then show ?thesis using Cons.IH[of ?st'] Cons.prems(4) False by (simp add: updates_Cons del: updates.simps)
  qed
qed

lemma hold_from_change:
  assumes "0 < D" "stable st = lastStable st" "X \<noteq> stable st" "X \<noteq> pending st"
    "\<exists>t\<in>set ts. D \<le> t - t0"
  shows "fst (updates D ((t0, X) # map (\<lambda>t. (t, X)) ts) st) = [(X, stable st)]"
proof -
  let ?st' = "snd (debounce D t0 X st)"
  have "pending ?st' = X" "changeTime ?st' = t0" "stable ?st' = lastStable ?st'"
    "stable ?st' = stable st" "fst (debounce D t0 X st) = None"
    using assms(1-4) by (simp_all add: debounce_fields)
  then show ?thesis
    using held_commits_once[of ?st' X t0 D ts] assms(3,5) by (simp add: updates_Cons del: updates.simps)
qed

lemma handleStateChange_state: "state (handleStateChange now n old eng) = state eng"
  by (simp add: handleStateChange_def Let_def)

lemma updateState_debounce:
  "fst (fst (updateState now eng)) =
     fst (debounce (STATE_DEBOUNCE_MS eng) now
            (determineState (trusted_hasVisual (mewt eng)) (hasCatSound (mewt eng))) (state eng))
   \<and> state (snd (updateState now eng)) =
     snd (debounce (STATE_DEBOUNCE_MS eng) now
            (determineState (trusted_hasVisual (mewt eng)) (hasCatSound (mewt eng))) (state eng))"
  by (cases "debounce (STATE_DEBOUNCE_MS eng) now
            (determineState (trusted_hasVisual (mewt eng)) (hasCatSound (mewt eng))) (state eng)")
     (auto simp: updateState_def Let_def handleStateChange_state split: option.splits prod.splits)

text \<open>
  Claim C1. On each update, a raw state that differs from \<open>pending\<close> becomes the pending
  state and resets \<open>changeTime\<close> to the time of the update. The stable state changes only
  in an update with \<open>now - changeTime \<ge> debounceMs\<close>, where it becomes the pending
  state; an update that changes the stable state fires exactly one transition (from the
  old stable state to the new one), and an update that does not fires none. The interval
  is 2000 ms unless configured. For a positive interval: from a settled state (pending
  and stable equal), a raw state that flaps, so that at no update it has been the same
  for as long as the interval, never fires a transition; a raw state that differs from
  the stable state and is held from its first update at \<open>t0\<close>, with an update at or
  after \<open>t0\<close> plus the interval, fires exactly one transition however many updates
  repeat it; and updates that repeat the raw state of a settled state fire none.
\<close>

theorem debounced_state_machine:
  "pending (snd (debounce D now raw st)) = raw
   \<and> changeTime (snd (debounce D now raw st)) = (if raw \<noteq> pending st then now else changeTime st)
   \<and> (stable (snd (debounce D now raw st)) \<noteq> stable st
        \<longrightarrow> D \<le> now - changeTime (snd (debounce D now raw st))
          \<and> stable (snd (debounce D now raw st)) = pending (snd (debounce D now raw st)))
   \<and> (stable st = lastStable st \<longrightarrow>
        fst (debounce D now raw st) =
          (if stable (snd (debounce D now raw st)) \<noteq> stable st
           then Some (stable (snd (debounce D now raw st)), stable st) else None)
        \<and> stable (snd (debounce D now raw st)) = lastStable (snd (debounce D now raw st)))
   \<and> STATE_DEBOUNCE_MS (MewtEngine_new None) = 2000
   \<and> fst (fst (updateState now eng)) =
        fst (debounce (STATE_DEBOUNCE_MS eng) now
               (determineState (trusted_hasVisual (mewt eng)) (hasCatSound (mewt eng))) (state eng))
   \<and> state (snd (updateState now eng)) =
        snd (debounce (STATE_DEBOUNCE_MS eng) now
               (determineState (trusted_hasVisual (mewt eng)) (hasCatSound (mewt eng))) (state eng))
   \<and> (0 < D \<and> stable st = lastStable st \<and> pending st = stable st \<and> flaps D None us
        \<longrightarrow> fst (updates D us st) = [])
   \<and> (0 < D \<and> stable st = lastStable st \<and> X \<noteq> stable st \<and> X \<noteq> pending st
        \<and> (\<exists>t\<in>set ts. D \<le> t - t0)
        \<longrightarrow> fst (updates D ((t0, X) # map (\<lambda>t. (t, X)) ts) st) = [(X, stable st)])
   \<and> (pending st = X \<and> stable st = X \<and> lastStable st = X
        \<longrightarrow> fst (updates D (map (\<lambda>t. (t, X)) ts) st) = [])"
proof -
  have a: "pending (snd (debounce D now raw st)) = raw
   \<and> changeTime (snd (debounce D now raw st)) = (if raw \<noteq> pending st then now else changeTime st)"
    by (simp add: debounce_fields)
  have b: "stable (snd (debounce D now raw st)) \<noteq> stable st
        \<longrightarrow> D \<le> now - changeTime (snd (debounce D now raw st))
          \<and> stable (snd (debounce D now raw st)) = pending (snd (debounce D now raw st))"
    by (simp add: debounce_fields)
  have c: "stable st = lastStable st \<longrightarrow>
        fst (debounce D now raw st) =
          (if stable (snd (debounce D now raw st)) \<noteq> stable st
           then Some (stable (snd (debounce D now raw st)), stable st) else None)
        \<and> stable (snd (debounce D now raw st)) = lastStable (snd (debounce D now raw st))"
    by (auto simp: debounce_fields)
  have d: "STATE_DEBOUNCE_MS (MewtEngine_new None) = 2000"
    by (simp add: MewtEngine_new_def)
  have f: "0 < D \<and> stable st = lastStable st \<and> pending st = stable st \<and> flaps D None us
        \<longrightarrow> fst (updates D us st) = []"
    using flaps_no_transition[of D st None us] by simp
  have g: "0 < D \<and> stable st = lastStable st \<and> X \<noteq> stable st \<and> X \<noteq> pending st
        \<and> (\<exists>t\<in>set ts. D \<le> t - t0)
        \<longrightarrow> fst (updates D ((t0, X) # map (\<lambda>t. (t, X)) ts) st) = [(X, stable st)]"
    using hold_from_change[of D st X ts t0] by blast
  have h: "pending st = X \<and> stable st = X \<and> lastStable st = X
        \<longrightarrow> fst (updates D (map (\<lambda>t. (t, X)) ts) st) = []"
    using held_no_reemit[of st X D ts] by blast
  from a b c d updateState_debounce[of now eng] f g h show ?thesis by blast
qed

theorem debounced_state_machine_witness:
  "flaps 2000 None [(1000, cat_visual), (1500, idle), (2500, cat_visual), (3000, cat_visual), (4400, idle)]
   \<and> fst (updates 2000 [(1000, cat_visual), (1500, idle), (2500, cat_visual), (3000, cat_visual), (4400, idle)]
        DebounceState_new) = []
   \<and> fst (updates 2000 ((10000, cat_visual) # map (\<lambda>t. (t, cat_visual)) [11000, 12000, 13000, 14000])
        DebounceState_new) = [(cat_visual, idle)]
   \<and> fst (updates 2000 (map (\<lambda>t. (t, idle)) [11000, 12000, 13000]) DebounceState_new) = []
   \<and> stable (snd (debounce 2000 12000 cat_visual
        \<lparr>stable = idle, pending = cat_visual, lastStable = idle, changeTime = 10000\<rparr>)) = cat_visual"
proof -
  have fl: "flaps 2000 None [(1000, cat_visual), (1500, idle), (2500, cat_visual), (3000, cat_visual), (4400, idle)]"
    by simp
  have ex: "\<exists>t\<in>set [11000, 12000, 13000, 14000 :: int]. 2000 \<le> t - 10000"
    by simp
  have st: "stable (snd (debounce 2000 12000 cat_visual
        \<lparr>stable = idle, pending = cat_visual, lastStable = idle, changeTime = 10000\<rparr>)) = cat_visual"
    by (simp add: debounce_def)
  show ?thesis
    using fl ex st
      debounced_state_machine[where D = 2000 and st = DebounceState_new
        and us = "[(1000, cat_visual), (1500, idle), (2500, cat_visual), (3000, cat_visual), (4400, idle)]"
        and X = cat_visual and ?t0.0 = 10000 and ts = "[11000, 12000, 13000, 14000]"]
      debounced_state_machine[where D = 2000 and st = DebounceState_new
        and X = idle and ts = "[11000, 12000, 13000]"]
      debounced_state_machine[where D = 2000 and now = 12000 and raw = cat_visual
        and st = "\<lparr>stable = idle, pending = cat_visual, lastStable = idle, changeTime = 10000\<rparr>"]
    by (simp add: DebounceState_new_def)
qed

section \<open>The rate limiter\<close>

lemma canCall_answer:
  "fst (canCall now rl) =
     (\<not> now - lastCallTime rl < minIntervalMs rl \<and>
      length (filter (\<lambda>t. now - t < 60000) (callsInLastMinute rl)) < maxPerMinute rl)"
  by (auto simp: canCall_def Let_def)

lemma canCall_state:
  "lastCallTime (snd (canCall now rl)) = lastCallTime rl
   \<and> minIntervalMs (snd (canCall now rl)) = minIntervalMs rl
   \<and> maxPerMinute (snd (canCall now rl)) = maxPerMinute rl
   \<and> (callsInLastMinute (snd (canCall now rl)) = callsInLastMinute rl
      \<or> callsInLastMinute (snd (canCall now rl)) = filter (\<lambda>t. now - t < 60000) (callsInLastMinute rl))"
  by (simp add: canCall_def Let_def)

lemma filter_window_twice:
  "t \<le> now \<Longrightarrow>
   filter (\<lambda>x. now - x < 60000) (filter (\<lambda>x. t - x < (60000 :: int)) xs) = filter (\<lambda>x. now - x < 60000) xs"
  by (induction xs) auto

lemma tracks_canCall:
  assumes "tracks lo hist rl" "lo \<le> t"
  shows "tracks t hist (snd (canCall t rl))"
proof -
  have w: "filter (\<lambda>x. now - x < 60000) (callsInLastMinute (snd (canCall t rl)))
      = filter (\<lambda>x. now - x < 60000) hist" if "t \<le> now" for now
  proof -
    have "filter (\<lambda>x. now - x < 60000) (callsInLastMinute (snd (canCall t rl)))
        = filter (\<lambda>x. now - x < 60000) (callsInLastMinute rl)"
      using canCall_state[of t rl] filter_window_twice[OF that] by auto
    also have "\<dots> = filter (\<lambda>x. now - x < 60000) hist"
      using assms that by (simp add: tracks_def)
    finally show ?thesis .
  qed
  show ?thesis
    using assms w canCall_state[of t rl] by (auto simp: tracks_def)
qed

lemma tracks_recordCall:
  assumes "tracks lo hist rl" "lo \<le> t"
  shows "tracks t (hist @ [t]) (recordCall t rl)"
  using assms by (auto simp: tracks_def recordCall_def)

lemma limiter_run_tracks:
  "tracks lo hist rl \<Longrightarrow> sorted (map call_time cs) \<Longrightarrow> \<forall>c\<in>set cs. lo \<le> call_time c \<Longrightarrow>
   tracks (if cs = [] then lo else call_time (last cs)) (hist @ recorded cs) (snd (limiter_run cs rl))"
proof (induction cs arbitrary: lo hist rl)
  case Nil
  then show ?case by simp
next
  case (Cons c cs)
  have le: "lo \<le> call_time c" using Cons.prems(3) by simp
  have srt: "sorted (map call_time cs)" and ge: "\<forall>d\<in>set cs. call_time c \<le> call_time d"
    using Cons.prems(2) by simp_all
  show ?case
  proof (cases c)
    case (CanCall t)
    have "tracks t hist (snd (canCall t rl))"
      using tracks_canCall[OF Cons.prems(1)] le CanCall by simp
    from Cons.IH[OF this srt] ge CanCall show ?thesis
      by (cases "limiter_run cs (snd (canCall t rl))") auto
  next
    case (RecordCall t)
    have "tracks t (hist @ [t]) (recordCall t rl)"
      using tracks_recordCall[OF Cons.prems(1)] le RecordCall by simp
    from Cons.IH[OF this srt] ge RecordCall show ?thesis by auto
  qed
qed

lemma tracks_new: "tracks lo [] (RateLimiter_new mi mx)"
  by (simp add: tracks_def RateLimiter_new_def)

lemma limiter_run_fields:
  "minIntervalMs (snd (limiter_run cs rl)) = minIntervalMs rl
   \<and> maxPerMinute (snd (limiter_run cs rl)) = maxPerMinute rl"
proof (induction cs arbitrary: rl)
  case Nil
  then show ?case by simp
next
  case (Cons c cs)
  show ?case
  proof (cases c)
    case (CanCall t)
    then show ?thesis using Cons.IH[of "snd (canCall t rl)"] canCall_state[of t rl]
      by (cases "limiter_run cs (snd (canCall t rl))") auto
  next
    case (RecordCall t)
    then show ?thesis using Cons.IH[of "recordCall t rl"] by (simp add: recordCall_def)
  qed
qed

lemma canCall_after_run:
  assumes "sorted (map call_time cs)" "\<forall>c\<in>set cs. call_time c \<le> now"
  shows "fst (canCall now (snd (limiter_run cs (RateLimiter_new mi mx)))) =
     (\<not> now - (if recorded cs = [] then 0 else last (recorded cs)) < mi \<and>
      length (filter (\<lambda>t. now - t < 60000) (recorded cs)) < mx)"
proof -
  let ?lo = "if cs = [] then now else call_time (hd cs)"
  let ?rl = "snd (limiter_run cs (RateLimiter_new mi mx))"
  have lo: "\<forall>c\<in>set cs. ?lo \<le> call_time c"
    using assms(1) by (cases cs) auto
  have "tracks (if cs = [] then ?lo else call_time (last cs)) ([] @ recorded cs) ?rl"
    by (rule limiter_run_tracks[OF tracks_new assms(1) lo])
  moreover have "(if cs = [] then ?lo else call_time (last cs)) \<le> now"
    using assms(2) by (cases "cs = []") auto
  ultimately have l: "lastCallTime ?rl = (if recorded cs = [] then 0 else last (recorded cs))"
    and w: "filter (\<lambda>t. now - t < 60000) (callsInLastMinute ?rl) = filter (\<lambda>t. now - t < 60000) (recorded cs)"
    by (simp_all add: tracks_def)
  have f: "minIntervalMs ?rl = mi" "maxPerMinute ?rl = mx"
    using limiter_run_fields[of cs "RateLimiter_new mi mx"] by (simp_all add: RateLimiter_new_def)
  show ?thesis by (simp only: canCall_answer l w f)
qed


lemma length_filter_mono:
  "(\<And>x. x \<in> set xs \<Longrightarrow> P x \<Longrightarrow> Q x) \<Longrightarrow> length (filter P xs) \<le> length (filter Q xs)"
  by (induction xs) auto

lemma sorted_le_last: "sorted xs \<Longrightarrow> x \<in> set xs \<Longrightarrow> x \<le> (last xs :: int)"
proof (induction xs)
  case Nil
  then show ?case by simp
next
  case (Cons a xs)
  show ?case
  proof (cases "xs = []")
    case True
    then show ?thesis using Cons.prems by simp
  next
    case False
    then have l: "last xs \<in> set xs" by simp
    show ?thesis
    proof (cases "x = a")
      case True
      then show ?thesis using Cons.prems(1) l False by auto
    next
      case ne: False
      then have "x \<in> set xs" using Cons.prems(2) by simp
      then show ?thesis using Cons.IH Cons.prems(1) False by simp
    qed
  qed
qed

lemma kept_canCall:
  assumes "tracks lo hist rl" "kept lo ok hist rl" "lo \<le> t"
  shows "kept t (fst (canCall t rl)) hist (snd (canCall t rl))"
proof -
  have w: "filter (\<lambda>x. t - x < 60000) (callsInLastMinute rl) = filter (\<lambda>x. t - x < 60000) hist"
    using assms(1,3) by (simp add: tracks_def)
  have "fst (canCall t rl) \<longrightarrow>
      minIntervalMs rl \<le> t - lastCallTime rl \<and> length (filter (\<lambda>x. t - x < 60000) hist) < maxPerMinute rl"
    by (simp add: canCall_answer w)
  then show ?thesis
    using assms(2) canCall_state[of t rl] by (simp add: kept_def)
qed

lemma kept_recordCall:
  assumes tr: "tracks lo hist rl" and kp: "kept lo True hist rl" and le: "lo \<le> t"
  shows "kept t False (hist @ [t]) (recordCall t rl)"
proof -
  have below: "\<forall>x\<in>set hist. x \<le> lo" using tr by (simp add: tracks_def)
  have srt: "sorted hist" using kp by (simp add: kept_def)
  have s1: "sorted (hist @ [t])"
    using srt below le by (auto simp: sorted_append)
  have sp: "\<forall>x\<in>set hist. minIntervalMs rl \<le> t - x"
  proof
    fix x assume x: "x \<in> set hist"
    then have ne: "hist \<noteq> []" by auto
    have "lastCallTime rl = last hist" using tr ne by (simp add: tracks_def)
    then have "minIntervalMs rl \<le> lo - last hist" using kp by (simp add: kept_def)
    moreover have "x \<le> last hist" using srt x by (rule sorted_le_last)
    ultimately show "minIntervalMs rl \<le> t - x" using le by linarith
  qed
  have s2: "sorted_wrt (\<lambda>x y. minIntervalMs rl \<le> y - x) (hist @ [t])"
    using kp sp by (simp add: kept_def sorted_wrt_append)
  have s3: "length (filter (\<lambda>x. x \<le> T \<and> T - x < 60000) (hist @ [t])) \<le> maxPerMinute rl" for T
  proof (cases "t \<le> T")
    case True
    have "length (filter (\<lambda>x. x \<le> T \<and> T - x < 60000) hist) \<le> length (filter (\<lambda>x. lo - x < 60000) hist)"
      by (rule length_filter_mono) (use True le in linarith)
    moreover have "length (filter (\<lambda>x. lo - x < 60000) hist) < maxPerMinute rl"
      using kp by (simp add: kept_def)
    ultimately show ?thesis by simp
  next
    case False
    then show ?thesis using kp by (simp add: kept_def)
  qed
  show ?thesis
    using s1 s2 s3 by (simp add: kept_def recordCall_def)
qed

lemma limiter_run_kept:
  "tracks lo hist rl \<Longrightarrow> kept lo ok hist rl \<Longrightarrow> sorted (map call_time cs) \<Longrightarrow>
   \<forall>c\<in>set cs. lo \<le> call_time c \<Longrightarrow> permitted_only ok cs rl \<Longrightarrow>
   \<exists>lo' ok'. kept lo' ok' (hist @ recorded cs) (snd (limiter_run cs rl))"
proof (induction cs arbitrary: lo ok hist rl)
  case Nil
  then show ?case by auto
next
  case (Cons c cs)
  have le: "lo \<le> call_time c" using Cons.prems(4) by simp
  have srt: "sorted (map call_time cs)" and ge: "\<forall>d\<in>set cs. call_time c \<le> call_time d"
    using Cons.prems(3) by simp_all
  show ?case
  proof (cases c)
    case (CanCall t)
    have t1: "tracks t hist (snd (canCall t rl))"
      using tracks_canCall[OF Cons.prems(1)] le CanCall by simp
    have k1: "kept t (fst (canCall t rl)) hist (snd (canCall t rl))"
      using kept_canCall[OF Cons.prems(1,2)] le CanCall by simp
    have p1: "permitted_only (fst (canCall t rl)) cs (snd (canCall t rl))"
      using Cons.prems(5) CanCall by simp
    have g1: "\<forall>d\<in>set cs. t \<le> call_time d" using ge CanCall by simp
    from Cons.IH[OF t1 k1 srt g1 p1] CanCall show ?thesis
      by (cases "limiter_run cs (snd (canCall t rl))") auto
  next
    case (RecordCall t)
    have ok: "ok" and p1: "permitted_only False cs (recordCall t rl)"
      using Cons.prems(5) RecordCall by simp_all
    have t1: "tracks t (hist @ [t]) (recordCall t rl)"
      using tracks_recordCall[OF Cons.prems(1)] le RecordCall by simp
    have k1: "kept t False (hist @ [t]) (recordCall t rl)"
      using kept_recordCall[OF Cons.prems(1)] Cons.prems(2) ok le RecordCall by simp
    have g1: "\<forall>d\<in>set cs. t \<le> call_time d" using ge RecordCall by simp
    from Cons.IH[OF t1 k1 srt g1 p1] RecordCall show ?thesis by auto
  qed
qed

lemma permitted_calls_within_limits:
  assumes "sorted (map call_time cs)" "permitted_only False cs (RateLimiter_new mi mx)"
  shows "sorted_wrt (\<lambda>x y. mi \<le> y - x) (recorded cs)
     \<and> (\<forall>T. length (filter (\<lambda>t. t \<le> T \<and> T - t < 60000) (recorded cs)) \<le> mx)"
proof -
  let ?lo = "if cs = [] then 0 else call_time (hd cs)"
  let ?rl = "snd (limiter_run cs (RateLimiter_new mi mx))"
  have lo: "\<forall>c\<in>set cs. ?lo \<le> call_time c"
    using assms(1) by (cases cs) auto
  have k0: "kept ?lo False [] (RateLimiter_new mi mx)"
    by (simp add: kept_def)
  from limiter_run_kept[OF tracks_new k0 assms(1) lo assms(2)]
  obtain lo' ok' where "kept lo' ok' (recorded cs) ?rl" by auto
  moreover have "minIntervalMs ?rl = mi" "maxPerMinute ?rl = mx"
    using limiter_run_fields[of cs "RateLimiter_new mi mx"] by (simp_all add: RateLimiter_new_def)
  ultimately show ?thesis by (simp add: kept_def)
qed

text \<open>
  Claim C2. \<open>canCall\<close> answers false exactly when the time since the last recorded call
  is below the minimum interval or the calls of the trailing 60000 ms number at least
  \<open>maxPerMinute\<close> (15000 ms and 3 by default). In every run of \<open>canCall\<close> and
  \<open>recordCall\<close> whose clock does not go back, the state holds what the answer needs of
  the history of recorded calls: the answer at a time \<open>now\<close> after the run is false
  whenever the last recorded call is less than the minimum interval back or the recorded
  calls of the trailing minute number at least \<open>maxPerMinute\<close>, however the calls are
  spaced. For a caller that records only permitted calls, every two recorded calls are at
  least the minimum interval apart, and every trailing minute holds at most
  \<open>maxPerMinute\<close> of them.
\<close>

theorem rate_limiter:
  "fst (canCall now rl) =
     (\<not> now - lastCallTime rl < minIntervalMs rl \<and>
      length (filter (\<lambda>t. now - t < 60000) (callsInLastMinute rl)) < maxPerMinute rl)
   \<and> rateLimiter (VLMChannel_new ty None None None) = RateLimiter_new 15000 3
   \<and> (sorted (map call_time cs) \<and> (\<forall>c\<in>set cs. call_time c \<le> now) \<longrightarrow>
        fst (canCall now (snd (limiter_run cs (RateLimiter_new mi mx)))) =
          (\<not> now - (if recorded cs = [] then 0 else last (recorded cs)) < mi \<and>
           length (filter (\<lambda>t. now - t < 60000) (recorded cs)) < mx))
   \<and> (sorted (map call_time cs) \<and> permitted_only False cs (RateLimiter_new mi mx) \<longrightarrow>
        sorted_wrt (\<lambda>x y. mi \<le> y - x) (recorded cs)
        \<and> (\<forall>T. length (filter (\<lambda>t. t \<le> T \<and> T - t < 60000) (recorded cs)) \<le> mx))"
proof -
  have a: "fst (canCall now rl) =
     (\<not> now - lastCallTime rl < minIntervalMs rl \<and>
      length (filter (\<lambda>t. now - t < 60000) (callsInLastMinute rl)) < maxPerMinute rl)"
    by (rule canCall_answer)
  have b: "rateLimiter (VLMChannel_new ty None None None) = RateLimiter_new 15000 3"
    by (simp add: VLMChannel_new_def)
  have c: "sorted (map call_time cs) \<and> (\<forall>c\<in>set cs. call_time c \<le> now) \<longrightarrow>
        fst (canCall now (snd (limiter_run cs (RateLimiter_new mi mx)))) =
          (\<not> now - (if recorded cs = [] then 0 else last (recorded cs)) < mi \<and>
           length (filter (\<lambda>t. now - t < 60000) (recorded cs)) < mx)"
    using canCall_after_run[of cs now mi mx] by blast
  have d: "sorted (map call_time cs) \<and> permitted_only False cs (RateLimiter_new mi mx) \<longrightarrow>
        sorted_wrt (\<lambda>x y. mi \<le> y - x) (recorded cs)
        \<and> (\<forall>T. length (filter (\<lambda>t. t \<le> T \<and> T - t < 60000) (recorded cs)) \<le> mx)"
    using permitted_calls_within_limits[of cs mi mx] by blast
  from a b c d show ?thesis by blast
qed

theorem rate_limiter_witness:
  "sorted (map call_time
      [CanCall 100000, RecordCall 100000, CanCall 105000, CanCall 115000, RecordCall 115200,
       CanCall 131000, RecordCall 131000])
   \<and> permitted_only False
      [CanCall 100000, RecordCall 100000, CanCall 105000, CanCall 115000, RecordCall 115200,
       CanCall 131000, RecordCall 131000] (RateLimiter_new 15000 3)
   \<and> recorded
      [CanCall 100000, RecordCall 100000, CanCall 105000, CanCall 115000, RecordCall 115200,
       CanCall 131000, RecordCall 131000] = [100000, 115200, 131000]
   \<and> fst (limiter_run
      [CanCall 100000, RecordCall 100000, CanCall 105000, CanCall 115000, RecordCall 115200,
       CanCall 131000, RecordCall 131000] (RateLimiter_new 15000 3)) = [True, False, True, True]
   \<and> \<not> fst (canCall 150000 (snd (limiter_run
      [CanCall 100000, RecordCall 100000, CanCall 105000, CanCall 115000, RecordCall 115200,
       CanCall 131000, RecordCall 131000] (RateLimiter_new 15000 3))))
   \<and> sorted_wrt (\<lambda>x y. 15000 \<le> y - x) (recorded
      [CanCall 100000, RecordCall 100000, CanCall 105000, CanCall 115000, RecordCall 115200,
       CanCall 131000, RecordCall 131000])
   \<and> length (filter (\<lambda>t. t \<le> 150000 \<and> 150000 - t < 60000) (recorded
      [CanCall 100000, RecordCall 100000, CanCall 105000, CanCall 115000, RecordCall 115200,
       CanCall 131000, RecordCall 131000])) \<le> 3"
proof -
  let ?cs = "[CanCall 100000, RecordCall 100000, CanCall 105000, CanCall 115000, RecordCall 115200,
       CanCall 131000, RecordCall 131000]"
  have s: "sorted (map call_time ?cs)" by simp
  have p: "permitted_only False ?cs (RateLimiter_new 15000 3)"
    by (simp add: canCall_def recordCall_def RateLimiter_new_def)
  have r: "recorded ?cs = [100000, 115200, 131000]" by simp
  have l: "fst (limiter_run ?cs (RateLimiter_new 15000 3)) = [True, False, True, True]"
    by (simp add: canCall_def recordCall_def RateLimiter_new_def)
  have b: "\<forall>c\<in>set ?cs. call_time c \<le> 150000" by simp
  note t = rate_limiter[where cs = ?cs and mi = 15000 and mx = 3 and now = 150000
      and rl = "RateLimiter_new 15000 3" and ty = "''vision''"]
  from t s b have n: "\<not> fst (canCall 150000 (snd (limiter_run ?cs (RateLimiter_new 15000 3))))"
    by (simp only: r) simp
  from t s p have w: "sorted_wrt (\<lambda>x y. 15000 \<le> y - x) (recorded ?cs)
      \<and> (\<forall>T. length (filter (\<lambda>t. t \<le> T \<and> T - t < 60000) (recorded ?cs)) \<le> 3)"
    by blast
  then have w2: "length (filter (\<lambda>t. t \<le> 150000 \<and> 150000 - t < 60000) (recorded ?cs)) \<le> 3"
    by blast
  from s p r l n w w2 show ?thesis by blast
qed

end
